(* ===== verification/Zs_Prelude.thy ===== *)
theory Zs_Prelude
  imports Main "HOL-Library.Word" "HOL-Library.Sublist"
begin

text \<open>
  Shared vocabulary of the zscheme development: Rust's \<open>Result\<close> as a sum, the chaining of
  fallible steps (the \<open>?\<close> operator), the machine integers the crate uses, and the generic
  machinery for state machines (reachable states, inductive invariants, simulations) that the
  concurrent parts of the program are verified with.
\<close>

section \<open>Results\<close>

text \<open>\<open>Result<T, E>\<close>: \<open>Err\<close> on the left, \<open>Ok\<close> on the right.\<close>

type_synonym ('e, 'a) result = "'e + 'a"

abbreviation Ok :: "'a \<Rightarrow> ('e, 'a) result" where
  "Ok \<equiv> Inr"

abbreviation Err :: "'e \<Rightarrow> ('e, 'a) result" where
  "Err \<equiv> Inl"

type_synonym u8 = "8 word"
type_synonym u32 = "32 word"
type_synonym u64 = "64 word"
type_synonym bytes = "8 word list"

named_theorems result_simps

definition and_then :: "('e, 'a) result \<Rightarrow> ('a \<Rightarrow> ('e, 'b) result) \<Rightarrow> ('e, 'b) result" where
  "and_then r f = (case r of Err e \<Rightarrow> Err e | Ok x \<Rightarrow> f x)"

definition map_err :: "('e \<Rightarrow> 'f) \<Rightarrow> ('e, 'a) result \<Rightarrow> ('f, 'a) result" where
  "map_err g r = (case r of Err e \<Rightarrow> Err (g e) | Ok x \<Rightarrow> Ok x)"

definition ok_or :: "'e \<Rightarrow> 'a option \<Rightarrow> ('e, 'a) result" where
  "ok_or e x = (case x of None \<Rightarrow> Err e | Some y \<Rightarrow> Ok y)"

definition is_ok :: "('e, 'a) result \<Rightarrow> bool" where
  "is_ok r = (case r of Err _ \<Rightarrow> False | Ok _ \<Rightarrow> True)"

lemma and_then_simps [simp, result_simps]:
  "and_then (Ok x) f = f x"
  "and_then (Err e) f = Err e"
  by (simp_all add: and_then_def)

lemma map_err_simps [simp, result_simps]:
  "map_err g (Ok x) = Ok x"
  "map_err g (Err e) = Err (g e)"
  by (simp_all add: map_err_def)

lemma ok_or_simps [simp, result_simps]:
  "ok_or e None = Err e"
  "ok_or e (Some x) = Ok x"
  by (simp_all add: ok_or_def)

lemma is_ok_simps [simp, result_simps]:
  "is_ok (Ok x)"
  "\<not> is_ok (Err e)"
  by (simp_all add: is_ok_def)

lemma and_then_Ok_iff [result_simps]:
  "and_then r f = Ok y \<longleftrightarrow> (\<exists>x. r = Ok x \<and> f x = Ok y)"
  by (cases r) auto

lemma and_then_Err_iff [result_simps]:
  "and_then r f = Err e \<longleftrightarrow> r = Err e \<or> (\<exists>x. r = Ok x \<and> f x = Err e)"
  by (cases r) auto

lemma map_err_Ok_iff [result_simps]: "map_err g r = Ok y \<longleftrightarrow> r = Ok y"
  by (cases r) auto

lemma map_err_Err_iff [result_simps]: "map_err g r = Err e \<longleftrightarrow> (\<exists>d. r = Err d \<and> e = g d)"
  by (cases r) auto

lemma ok_or_Ok_iff [result_simps]: "ok_or e x = Ok y \<longleftrightarrow> x = Some y"
  by (cases x) auto

lemma is_ok_iff: "is_ok r \<longleftrightarrow> (\<exists>x. r = Ok x)"
  by (cases r) auto

section \<open>Lists\<close>

lemma append_eq_length_drop: "drop (length xs) (xs @ ys) = ys"
  by simp

lemma take_append_exact: "length xs = n \<Longrightarrow> take n (xs @ ys) = xs"
  by simp

lemma drop_append_exact: "length xs = n \<Longrightarrow> drop n (xs @ ys) = ys"
  by simp

lemma dropWhile_id_iff: "dropWhile P xs = xs \<longleftrightarrow> xs = [] \<or> \<not> P (hd xs)"
proof (cases xs)
  case (Cons x ys)
  have "length (dropWhile P ys) \<le> length ys"
    by (rule length_dropWhile_le)
  then have "P x \<Longrightarrow> dropWhile P ys \<noteq> x # ys" by auto
  with Cons show ?thesis by simp
qed simp

section \<open>State machines\<close>

text \<open>
  A machine is a set of initial states and a step relation.  \<open>reachable\<close> is the least set of
  states that contains the initial ones and is closed under steps.
\<close>

inductive reachable :: "('s \<Rightarrow> bool) \<Rightarrow> ('s \<Rightarrow> 's \<Rightarrow> bool) \<Rightarrow> 's \<Rightarrow> bool"
  for init step where
  reach_init: "init s \<Longrightarrow> reachable init step s"
| reach_step: "reachable init step s \<Longrightarrow> step s t \<Longrightarrow> reachable init step t"

lemma reachable_steps:
  assumes "step\<^sup>*\<^sup>* s t" and "reachable init step s"
  shows "reachable init step t"
  using assms by (induction rule: rtranclp_induct) (auto intro: reach_step)

lemma reachable_init_mono:
  assumes "reachable init step s" and "\<And>s. init s \<Longrightarrow> init' s"
  shows "reachable init' step s"
  using assms(1) by (induction rule: reachable.induct) (auto intro: reachable.intros assms(2))

text \<open>An inductive invariant: it holds at the start and every step keeps it.\<close>

locale inductive_invariant =
  fixes init :: "'s \<Rightarrow> bool"
    and step :: "'s \<Rightarrow> 's \<Rightarrow> bool"
    and inv :: "'s \<Rightarrow> bool"
  assumes inv_init: "init s \<Longrightarrow> inv s"
    and inv_step: "step s t \<Longrightarrow> inv s \<Longrightarrow> inv t"
begin

lemma always: "reachable init step s \<Longrightarrow> inv s"
  by (induction rule: reachable.induct) (auto intro: inv_init inv_step)

lemma along: "step\<^sup>*\<^sup>* s t \<Longrightarrow> inv s \<Longrightarrow> inv t"
  by (induction rule: rtranclp_induct) (auto intro: inv_step)

end

text \<open>
  A second invariant that is only inductive relative to a first one.  Their conjunction is
  inductive, which the sublocale records.
\<close>

locale relative_invariant = inductive_invariant init step inv
  for init :: "'s \<Rightarrow> bool" and step :: "'s \<Rightarrow> 's \<Rightarrow> bool" and inv :: "'s \<Rightarrow> bool" +
  fixes rel :: "'s \<Rightarrow> bool"
  assumes rel_init: "init s \<Longrightarrow> rel s"
    and rel_step: "step s t \<Longrightarrow> inv s \<Longrightarrow> rel s \<Longrightarrow> rel t"

sublocale relative_invariant \<subseteq> both: inductive_invariant init step "\<lambda>s. inv s \<and> rel s"
  by unfold_locales (auto intro: inv_init inv_step rel_init rel_step)

text \<open>
  A simulation with stuttering: every concrete step is, through the abstraction, an abstract step
  or no step, provided the concrete invariant holds.
\<close>

locale simulation = inductive_invariant init step inv
  for init :: "'s \<Rightarrow> bool" and step :: "'s \<Rightarrow> 's \<Rightarrow> bool" and inv :: "'s \<Rightarrow> bool" +
  fixes ainit :: "'a \<Rightarrow> bool"
    and astep :: "'a \<Rightarrow> 'a \<Rightarrow> bool"
    and abs :: "'s \<Rightarrow> 'a"
  assumes sim_init: "init s \<Longrightarrow> ainit (abs s)"
    and sim_step: "step s t \<Longrightarrow> inv s \<Longrightarrow> astep (abs s) (abs t) \<or> abs t = abs s"
begin

lemma refines: "reachable init step s \<Longrightarrow> reachable ainit astep (abs s)"
proof (induction rule: reachable.induct)
  case (reach_init s)
  then show ?case by (blast intro: reachable.reach_init sim_init)
next
  case (reach_step s t)
  from reach_step.hyps(1) have "inv s" by (rule always)
  with reach_step.hyps(2) have "astep (abs s) (abs t) \<or> abs t = abs s" by (rule sim_step)
  with reach_step.IH show ?case by (auto intro: reachable.reach_step)
qed

end

text \<open>
  Progress.  A run is an infinite sequence of steps.  From \<open>pre\<close> the machine reaches \<open>post\<close> when
  every step keeps \<open>pre\<close> without raising a rank, the helpful steps lower the rank, and the run
  takes a helpful step again and again while \<open>pre\<close> lasts (the fairness that the client proves of
  its runs).
\<close>

definition run_of :: "('s \<Rightarrow> 's \<Rightarrow> bool) \<Rightarrow> (nat \<Rightarrow> 's) \<Rightarrow> bool" where
  "run_of step \<sigma> \<longleftrightarrow> (\<forall>i. step (\<sigma> i) (\<sigma> (Suc i)))"

lemma run_leaves:
  fixes \<sigma> :: "nat \<Rightarrow> 's"
  assumes "i \<le> j" and "P (\<sigma> i)" and "\<not> P (\<sigma> j)"
  shows "\<exists>k \<ge> i. (\<forall>m. i \<le> m \<and> m \<le> k \<longrightarrow> P (\<sigma> m)) \<and> \<not> P (\<sigma> (Suc k))"
  using assms
proof (induction j rule: dec_induct)
  case (step n)
  then show ?case
  proof (cases "\<forall>m. i \<le> m \<and> m \<le> n \<longrightarrow> P (\<sigma> m)")
    case True
    with step show ?thesis by blast
  next
    case False
    define m where "m = (LEAST m. i \<le> m \<and> \<not> P (\<sigma> m))"
    have ex: "\<exists>m. i \<le> m \<and> \<not> P (\<sigma> m)" using False by blast
    have m: "i \<le> m \<and> \<not> P (\<sigma> m)" unfolding m_def using ex by (rule LeastI_ex)
    have before: "P (\<sigma> l)" if "i \<le> l" "l < m" for l
      using not_less_Least [of l "\<lambda>m. i \<le> m \<and> \<not> P (\<sigma> m)"] that by (auto simp: m_def)
    have "m \<noteq> i" using m step.prems(1) by blast
    with m have "i \<le> m - 1" "Suc (m - 1) = m" by auto
    with m before show ?thesis by (intro exI [of _ "m - 1"]) auto
  qed
qed simp

locale leads_to =
  fixes step :: "'s \<Rightarrow> 's \<Rightarrow> bool"
    and inv :: "'s \<Rightarrow> bool"
    and pre :: "'s \<Rightarrow> bool"
    and post :: "'s \<Rightarrow> bool"
    and rank :: "'s \<Rightarrow> nat"
    and helpful :: "'s \<Rightarrow> 's \<Rightarrow> bool"
  assumes inv_kept: "step s t \<Longrightarrow> inv s \<Longrightarrow> inv t"
    and pre_kept: "step s t \<Longrightarrow> inv s \<Longrightarrow> pre s \<Longrightarrow> post t \<or> pre t \<and> rank t \<le> rank s"
    and helps: "step s t \<Longrightarrow> inv s \<Longrightarrow> pre s \<Longrightarrow> helpful s t \<Longrightarrow> post t \<or> rank t < rank s"
begin

lemma inv_run: "run_of step \<sigma> \<Longrightarrow> inv (\<sigma> 0) \<Longrightarrow> inv (\<sigma> i)"
  by (induction i) (auto simp: run_of_def intro: inv_kept)

lemma stays:
  assumes "run_of step \<sigma>" and "inv (\<sigma> 0)" and "pre (\<sigma> i)" and "i \<le> j"
    and "\<forall>k. i < k \<and> k \<le> j \<longrightarrow> \<not> post (\<sigma> k)"
  shows "pre (\<sigma> j) \<and> rank (\<sigma> j) \<le> rank (\<sigma> i)"
  using assms(4,5)
proof (induction j rule: dec_induct)
  case base
  with assms(3) show ?case by simp
next
  case (step n)
  then have "pre (\<sigma> n)" and le: "rank (\<sigma> n) \<le> rank (\<sigma> i)" by auto
  then have "post (\<sigma> (Suc n)) \<or> pre (\<sigma> (Suc n)) \<and> rank (\<sigma> (Suc n)) \<le> rank (\<sigma> n)"
    using assms(1) inv_run [OF assms(1,2)] by (intro pre_kept) (auto simp: run_of_def)
  with step le show ?case by auto
qed

lemma reaches:
  assumes "run_of step \<sigma>" and "inv (\<sigma> 0)"
    and fair: "\<And>i. pre (\<sigma> i) \<Longrightarrow> \<exists>j \<ge> i. helpful (\<sigma> j) (\<sigma> (Suc j))"
    and "pre (\<sigma> i)"
  shows "\<exists>j > i. post (\<sigma> j)"
  using \<open>pre (\<sigma> i)\<close>
proof (induction "rank (\<sigma> i)" arbitrary: i rule: less_induct)
  case less
  from fair [OF less.prems] obtain j where j: "i \<le> j" "helpful (\<sigma> j) (\<sigma> (Suc j))" by blast
  show ?case
  proof (cases "\<forall>k. i < k \<and> k \<le> Suc j \<longrightarrow> \<not> post (\<sigma> k)")
    case True
    then have at_j: "pre (\<sigma> j)" "rank (\<sigma> j) \<le> rank (\<sigma> i)"
      using stays [OF assms(1,2) less.prems j(1)] by auto
    have "pre (\<sigma> (Suc j))"
      using stays [OF assms(1,2) less.prems _ True] j(1) by simp
    moreover have "post (\<sigma> (Suc j)) \<or> rank (\<sigma> (Suc j)) < rank (\<sigma> j)"
      using assms(1) inv_run [OF assms(1,2)] at_j j(2) by (intro helps) (auto simp: run_of_def)
    moreover have "\<not> post (\<sigma> (Suc j))" using True j(1) by simp
    ultimately have "\<exists>k > Suc j. post (\<sigma> k)" using at_j by (intro less.hyps) auto
    with j(1) show ?thesis by (meson Suc_lessD le_less_trans)
  qed blast
qed

lemma reaches_until:
  assumes "run_of step \<sigma>" and "inv (\<sigma> 0)"
    and fair: "\<And>i. pre (\<sigma> i) \<Longrightarrow> \<exists>j \<ge> i. helpful (\<sigma> j) (\<sigma> (Suc j))"
    and "pre (\<sigma> i)"
  shows "\<exists>j > i. post (\<sigma> j) \<and> (\<forall>m. i \<le> m \<and> m < j \<longrightarrow> pre (\<sigma> m))"
proof -
  define j where "j = (LEAST j. i < j \<and> post (\<sigma> j))"
  have "\<exists>j. i < j \<and> post (\<sigma> j)" using reaches [OF assms] by blast
  then have j: "i < j \<and> post (\<sigma> j)" unfolding j_def by (rule LeastI_ex)
  have "\<not> post (\<sigma> k)" if "i < k" "k < j" for k
    using not_less_Least [of k "\<lambda>j. i < j \<and> post (\<sigma> j)"] that by (auto simp: j_def)
  then have "pre (\<sigma> m)" if "i \<le> m" "m < j" for m
    using stays [OF assms(1,2,4) that(1)] that by simp
  with j show ?thesis by blast
qed

end

end
