(* ===== verification/Zs_Text.thy ===== *)
theory Zs_Text
  imports Zs_Prelude
begin

text \<open>
  Rust strings as the program uses them.  A \<open>String\<close> is a list of Unicode scalar values
  (\<open>char\<close>), each its code point as a \<open>nat\<close>; \<open>lit\<close> turns an ASCII literal into one.  The theory
  defines the parts of \<open>str\<close> and \<open>String\<close> the crate calls: trimming by the Unicode
  \<open>White_Space\<close> property, prefixes, searching, replacing, decimal formatting, and UTF-8 in both
  directions, strict (\<open>String::from_utf8\<close>) and lossy (\<open>String::from_utf8_lossy\<close>, one U+FFFD for
  each maximal invalid prefix).
\<close>

section \<open>Characters and literals\<close>

type_synonym rchar = nat
type_synonym rstr = "nat list"

definition lit :: "string \<Rightarrow> rstr" where
  "lit s = map of_char s"

abbreviation chr :: "char \<Rightarrow> rchar" where
  "chr c \<equiv> of_char c"

definition newline :: rchar where
  "newline = 10"

definition em_dash :: rchar where
  "em_dash = 0x2014"

definition is_scalar :: "rchar \<Rightarrow> bool" where
  "is_scalar c \<longleftrightarrow> c < 0xD800 \<or> (0xE000 \<le> c \<and> c \<le> 0x10FFFF)"

definition valid_str :: "rstr \<Rightarrow> bool" where
  "valid_str s = list_all is_scalar s"

definition is_whitespace :: "rchar \<Rightarrow> bool" where
  "is_whitespace c \<longleftrightarrow>
     (9 \<le> c \<and> c \<le> 13) \<or> c = 0x20 \<or> c = 0x85 \<or> c = 0xA0 \<or> c = 0x1680 \<or>
     (0x2000 \<le> c \<and> c \<le> 0x200A) \<or> c = 0x2028 \<or> c = 0x2029 \<or> c = 0x202F \<or> c = 0x205F \<or> c = 0x3000"

definition is_ascii_alphabetic :: "rchar \<Rightarrow> bool" where
  "is_ascii_alphabetic c \<longleftrightarrow> (65 \<le> c \<and> c \<le> 90) \<or> (97 \<le> c \<and> c \<le> 122)"

lemma lit_simps [simp]: "lit [] = []" "lit (c # cs) = of_char c # lit cs"
  by (simp_all add: lit_def)

lemma lit_append: "lit (a @ b) = lit a @ lit b"
  by (simp add: lit_def)

lemma length_lit [simp]: "length (lit s) = length s"
  by (simp add: lit_def)

section \<open>Trimming\<close>

definition trim_start :: "rstr \<Rightarrow> rstr" where
  "trim_start s = dropWhile is_whitespace s"

definition trim_end :: "rstr \<Rightarrow> rstr" where
  "trim_end s = rev (dropWhile is_whitespace (rev s))"

definition trim :: "rstr \<Rightarrow> rstr" where
  "trim s = trim_end (trim_start s)"

lemma trim_Nil [simp]: "trim [] = []" "trim_start [] = []" "trim_end [] = []"
  by (simp_all add: trim_def trim_start_def trim_end_def)

lemma trim_end_eq_Nil: "trim_end s = [] \<longleftrightarrow> list_all is_whitespace s"
  by (auto simp: trim_end_def dropWhile_eq_Nil_conv list_all_iff)

lemma trim_start_eq_Nil: "trim_start s = [] \<longleftrightarrow> list_all is_whitespace s"
  by (auto simp: trim_start_def dropWhile_eq_Nil_conv list_all_iff)

lemma trim_start_hd: "trim_start s \<noteq> [] \<Longrightarrow> \<not> is_whitespace (hd (trim_start s))"
  unfolding trim_start_def by (rule hd_dropWhile)

lemma trim_end_last: "trim_end s \<noteq> [] \<Longrightarrow> \<not> is_whitespace (last (trim_end s))"
  unfolding trim_end_def using hd_dropWhile [of is_whitespace "rev s"] by (simp add: last_rev)

lemma trim_end_prefix: "\<exists>w. s = trim_end s @ w \<and> list_all is_whitespace w"
proof (intro exI conjI)
  have "rev s = takeWhile is_whitespace (rev s) @ dropWhile is_whitespace (rev s)"
    by simp
  then have "rev (rev s) = rev (takeWhile is_whitespace (rev s) @ dropWhile is_whitespace (rev s))"
    by (rule arg_cong)
  then show "s = trim_end s @ rev (takeWhile is_whitespace (rev s))"
    by (simp only: rev_append rev_rev_ident trim_end_def)
  show "list_all is_whitespace (rev (takeWhile is_whitespace (rev s)))"
    by (auto simp: list_all_iff dest: set_takeWhileD)
qed

lemma trim_end_hd: "trim_end s \<noteq> [] \<Longrightarrow> hd (trim_end s) = hd s"
  using trim_end_prefix [of s] by (metis hd_append2)

lemma trim_hd: "trim s \<noteq> [] \<Longrightarrow> \<not> is_whitespace (hd (trim s))"
  unfolding trim_def by (metis trim_end_hd trim_Nil(3) trim_start_hd)

lemma trim_last: "trim s \<noteq> [] \<Longrightarrow> \<not> is_whitespace (last (trim s))"
  unfolding trim_def by (rule trim_end_last)

text \<open>A string with no white space at either end is its own trim.\<close>

definition trimmed :: "rstr \<Rightarrow> bool" where
  "trimmed s \<longleftrightarrow> s = [] \<or> (\<not> is_whitespace (hd s) \<and> \<not> is_whitespace (last s))"

lemma trimmed_trim [simp]: "trimmed (trim s)"
  using trim_hd trim_last by (auto simp: trimmed_def)

lemma trim_trimmed: "trimmed s \<Longrightarrow> trim s = s"
proof -
  assume t: "trimmed s"
  then have "dropWhile is_whitespace s = s"
    by (auto simp: trimmed_def dropWhile_id_iff)
  moreover from t have "dropWhile is_whitespace (rev s) = rev s"
    by (auto simp: trimmed_def dropWhile_id_iff hd_rev)
  ultimately show "trim s = s"
    by (simp add: trim_def trim_start_def trim_end_def)
qed

lemma trim_idem [simp]: "trim (trim s) = trim s"
  by (simp add: trim_trimmed)

lemma trim_eq_Nil: "trim s = [] \<longleftrightarrow> list_all is_whitespace s"
proof -
  have "list_all is_whitespace (trim_start s) \<longleftrightarrow> trim_start s = []"
    using trim_start_hd [of s] by (cases "trim_start s") auto
  then show ?thesis
    by (simp add: trim_def trim_end_eq_Nil trim_start_eq_Nil)
qed

lemma trim_decomp: "\<exists>u v. s = u @ trim s @ v \<and> list_all is_whitespace u \<and> list_all is_whitespace v"
proof -
  obtain w where w: "trim_start s = trim_end (trim_start s) @ w" "list_all is_whitespace w"
    using trim_end_prefix [of "trim_start s"] by blast
  have "s = takeWhile is_whitespace s @ trim_start s"
    by (simp add: trim_start_def)
  with w have "s = takeWhile is_whitespace s @ trim s @ w"
    by (simp add: trim_def)
  moreover have "list_all is_whitespace (takeWhile is_whitespace s)"
    by (auto simp: list_all_iff dest: set_takeWhileD)
  ultimately show ?thesis using w(2) by blast
qed

lemma set_trim: "c \<in> set (trim s) \<Longrightarrow> c \<in> set s"
  using trim_decomp [of s] by (metis UnCI set_append)

section \<open>Prefixes, searching, replacing\<close>

definition starts_with :: "rstr \<Rightarrow> rstr \<Rightarrow> bool" where
  "starts_with s p \<longleftrightarrow> take (length p) s = p"

definition strip_prefix :: "rstr \<Rightarrow> rstr \<Rightarrow> rstr option" where
  "strip_prefix s p = (if starts_with s p then Some (drop (length p) s) else None)"

definition ends_with_char :: "rstr \<Rightarrow> rchar \<Rightarrow> bool" where
  "ends_with_char s c \<longleftrightarrow> s \<noteq> [] \<and> last s = c"

text \<open>\<open>str::find(char)\<close>, with the position counted in characters.\<close>

fun find_char :: "rstr \<Rightarrow> rchar \<Rightarrow> nat option" where
  "find_char [] c = None"
| "find_char (x # xs) c = (if x = c then Some 0 else map_option Suc (find_char xs c))"

definition replace_char :: "rstr \<Rightarrow> rchar \<Rightarrow> rstr \<Rightarrow> rstr" where
  "replace_char s c r = concat (map (\<lambda>x. if x = c then r else [x]) s)"

lemma starts_with_append [simp]: "starts_with (p @ s) p"
  by (simp add: starts_with_def)

lemma starts_withE:
  assumes "starts_with s p"
  obtains r where "s = p @ r"
  using assms unfolding starts_with_def by (metis append_take_drop_id)

lemma strip_prefix_append [simp]: "strip_prefix (p @ s) p = Some s"
  by (simp add: strip_prefix_def)

lemma strip_prefix_Some_iff: "strip_prefix s p = Some r \<longleftrightarrow> s = p @ r"
  unfolding strip_prefix_def starts_with_def by (auto, metis append_take_drop_id)

lemma find_char_None: "find_char s c = None \<longleftrightarrow> c \<notin> set s"
  by (induction s) auto

lemma find_char_Some:
  "find_char s c = Some i \<longleftrightarrow> i < length s \<and> s ! i = c \<and> c \<notin> set (take i s)"
proof (induction s arbitrary: i)
  case (Cons x xs)
  then show ?case by (cases i) auto
qed simp

lemma find_char_append: "c \<notin> set l \<Longrightarrow> find_char (l @ c # s) c = Some (length l)"
  by (induction l) auto

lemma replace_char_noop: "c \<notin> set s \<Longrightarrow> replace_char s c r = s"
  by (induction s) (auto simp: replace_char_def)

section \<open>Formatting integers\<close>

fun nat_digits :: "nat \<Rightarrow> rstr" where
  "nat_digits n = (if n < 10 then [48 + n] else nat_digits (n div 10) @ [48 + n mod 10])"

declare nat_digits.simps [simp del]

definition show_int :: "int \<Rightarrow> rstr" where
  "show_int i = (if i < 0 then chr CHR ''-'' # nat_digits (nat (- i)) else nat_digits (nat i))"

text \<open>\<open>{:0w}\<close>: zero padding to \<open>w\<close> characters, the sign first and counted.\<close>

definition pad_zeros :: "nat \<Rightarrow> rstr \<Rightarrow> rstr" where
  "pad_zeros w s = replicate (w - length s) 48 @ s"

definition show_padded :: "nat \<Rightarrow> int \<Rightarrow> rstr" where
  "show_padded w i =
     (if i < 0 then chr CHR ''-'' # pad_zeros (w - 1) (nat_digits (nat (- i)))
      else pad_zeros w (nat_digits (nat i)))"

definition digits_value :: "rstr \<Rightarrow> nat" where
  "digits_value s = foldl (\<lambda>n c. 10 * n + (c - 48)) 0 s"

lemma nat_digits_nonempty [simp]: "nat_digits n \<noteq> []"
  by (subst nat_digits.simps) simp

lemma digits_value_nat_digits: "digits_value (nat_digits n) = n"
proof (induction n rule: nat_digits.induct)
  case (1 n)
  then show ?case
    by (subst nat_digits.simps) (auto simp: digits_value_def)
qed

lemma nat_digits_inj: "nat_digits m = nat_digits n \<Longrightarrow> m = n"
  by (metis digits_value_nat_digits)

lemma nat_digits_range: "c \<in> set (nat_digits n) \<Longrightarrow> 48 \<le> c \<and> c \<le> 57"
proof (induction n rule: nat_digits.induct)
  case (1 n)
  show ?case
  proof (cases "n < 10")
    case True
    then show ?thesis using 1(2) by (subst (asm) nat_digits.simps) auto
  next
    case False
    have "c \<in> set (nat_digits (n div 10)) \<or> c = 48 + n mod 10"
      using 1(2) False by (subst (asm) nat_digits.simps) auto
    then show ?thesis
      using 1(1) [OF False] by auto
  qed
qed

lemma minus_not_digits: "chr CHR ''-'' # xs \<noteq> nat_digits n"
proof
  assume "chr CHR ''-'' # xs = nat_digits n"
  then have "chr CHR ''-'' \<in> set (nat_digits n)" by (metis list.set_intros(1))
  then show False using nat_digits_range [of "chr CHR ''-''" n] by simp
qed

lemma show_int_inj: "show_int i = show_int j \<Longrightarrow> i = j"
  unfolding show_int_def
  using minus_not_digits [of _ "nat i"] minus_not_digits [of _ "nat j"] nat_digits_inj
  by (smt (verit, best) eq_nat_nat_iff list.inject)

lemma length_pad_zeros [simp]: "length (pad_zeros w s) = max w (length s)"
  by (simp add: pad_zeros_def)

lemma length_nat_digits_le: "n < 10 ^ k \<Longrightarrow> 0 < k \<Longrightarrow> length (nat_digits n) \<le> k"
proof (induction n arbitrary: k rule: nat_digits.induct)
  case (1 n)
  show ?case
  proof (cases "n < 10")
    case True
    then show ?thesis using 1(3) by (subst nat_digits.simps) auto
  next
    case False
    obtain j where k: "k = Suc j"
      using 1(3) by (cases k) auto
    with False 1(2) have "0 < j" by (cases j) auto
    note k = k this
    with 1(2) have "n div 10 < 10 ^ j" by (simp add: less_mult_imp_div_less mult.commute)
    with 1(1) [OF False, of j] k have "length (nat_digits (n div 10)) \<le> j" by simp
    with False k show ?thesis by (subst nat_digits.simps) auto
  qed
qed

end
