(* ===== verification/Zs_Utf8.thy ===== *)
theory Zs_Utf8
  imports Zs_Text
begin

text \<open>
  UTF-8 as Rust's standard library implements it: \<open>str::as_bytes\<close> (encoding),
  \<open>String::from_utf8\<close> (strict decoding) and \<open>String::from_utf8_lossy\<close>.  One scanner produces, for
  a byte string, the scalar values it holds and a \<open>None\<close> for each maximal invalid prefix; strict
  decoding succeeds when there is no \<open>None\<close>, lossy decoding replaces each by U+FFFD.
\<close>

section \<open>Encoding\<close>

definition utf8_char :: "rchar \<Rightarrow> nat list" where
  "utf8_char c =
     (if c < 0x80 then [c]
      else if c < 0x800 then [0xC0 + c div 64, 0x80 + c mod 64]
      else if c < 0x10000 then [0xE0 + c div 4096, 0x80 + c div 64 mod 64, 0x80 + c mod 64]
      else [0xF0 + c div 262144, 0x80 + c div 4096 mod 64, 0x80 + c div 64 mod 64, 0x80 + c mod 64])"

definition utf8_encode :: "rstr \<Rightarrow> bytes" where
  "utf8_encode s = map of_nat (concat (map utf8_char s))"

section \<open>Decoding\<close>

definition is_cont :: "nat \<Rightarrow> bool" where
  "is_cont b \<longleftrightarrow> 0x80 \<le> b \<and> b \<le> 0xBF"

text \<open>The ranges the second byte may have after each three- or four-byte lead.\<close>

definition second_ok :: "nat \<Rightarrow> nat \<Rightarrow> bool" where
  "second_ok b0 b1 \<longleftrightarrow>
     (if b0 = 0xE0 then 0xA0 \<le> b1 \<and> b1 \<le> 0xBF
      else if b0 = 0xED then 0x80 \<le> b1 \<and> b1 \<le> 0x9F
      else if b0 = 0xF0 then 0x90 \<le> b1 \<and> b1 \<le> 0xBF
      else if b0 = 0xF4 then 0x80 \<le> b1 \<and> b1 \<le> 0x8F
      else is_cont b1)"

fun utf8_scan :: "nat list \<Rightarrow> rchar option list" where
  "utf8_scan [] = []"
| "utf8_scan (b0 # bs) =
     (if b0 < 0x80 then Some b0 # utf8_scan bs
      else if 0xC2 \<le> b0 \<and> b0 \<le> 0xDF then
        (case bs of
          [] \<Rightarrow> [None]
        | b1 # bs1 \<Rightarrow>
            if is_cont b1 then Some ((b0 - 0xC0) * 64 + (b1 - 0x80)) # utf8_scan bs1
            else None # utf8_scan bs)
      else if 0xE0 \<le> b0 \<and> b0 \<le> 0xEF then
        (case bs of
          [] \<Rightarrow> [None]
        | b1 # bs1 \<Rightarrow>
            if second_ok b0 b1 then
              (case bs1 of
                [] \<Rightarrow> [None]
              | b2 # bs2 \<Rightarrow>
                  if is_cont b2
                  then Some ((b0 - 0xE0) * 4096 + (b1 - 0x80) * 64 + (b2 - 0x80)) # utf8_scan bs2
                  else None # utf8_scan bs1)
            else None # utf8_scan bs)
      else if 0xF0 \<le> b0 \<and> b0 \<le> 0xF4 then
        (case bs of
          [] \<Rightarrow> [None]
        | b1 # bs1 \<Rightarrow>
            if second_ok b0 b1 then
              (case bs1 of
                [] \<Rightarrow> [None]
              | b2 # bs2 \<Rightarrow>
                  if is_cont b2 then
                    (case bs2 of
                      [] \<Rightarrow> [None]
                    | b3 # bs3 \<Rightarrow>
                        if is_cont b3
                        then Some ((b0 - 0xF0) * 262144 + (b1 - 0x80) * 4096
                                   + (b2 - 0x80) * 64 + (b3 - 0x80)) # utf8_scan bs3
                        else None # utf8_scan bs2)
                  else None # utf8_scan bs1)
            else None # utf8_scan bs)
      else None # utf8_scan bs)"

fun all_some :: "'a option list \<Rightarrow> 'a list option" where
  "all_some [] = Some []"
| "all_some (None # xs) = None"
| "all_some (Some x # xs) = map_option (Cons x) (all_some xs)"

definition from_utf8 :: "bytes \<Rightarrow> rstr option" where
  "from_utf8 bs = all_some (utf8_scan (map unat bs))"

definition from_utf8_lossy :: "bytes \<Rightarrow> rstr" where
  "from_utf8_lossy bs =
     map (\<lambda>x. case x of None \<Rightarrow> 0xFFFD | Some c \<Rightarrow> c) (utf8_scan (map unat bs))"

section \<open>Round trips\<close>

lemma all_some_map_Some [simp]: "all_some (map Some xs) = Some xs"
  by (induction xs) auto

lemma all_some_iff: "all_some xs = Some ys \<longleftrightarrow> xs = map Some ys"
  by (induction xs arbitrary: ys rule: all_some.induct) auto

lemma utf8_char_byte: "is_scalar c \<Longrightarrow> b \<in> set (utf8_char c) \<Longrightarrow> b < 256"
  by (auto simp: utf8_char_def is_scalar_def split: if_splits)

lemma div_64_twice: "(c :: nat) div 4096 = c div 64 div 64"
  by (simp add: div_mult2_eq [symmetric])

lemma div_64_thrice: "(c :: nat) div 262144 = c div 64 div 64 div 64"
  by (simp add: div_mult2_eq [symmetric])

lemma recompose_1: "(c :: nat) div 64 * 64 + c mod 64 = c"
  by simp

lemma recompose_2: "(c :: nat) div 4096 * 4096 + c div 64 mod 64 * 64 + c mod 64 = c"
  using div_mult_mod_eq [of c 64] div_mult_mod_eq [of "c div 64" 64]
  unfolding div_64_twice by linarith

lemma recompose_3:
  "(c :: nat) div 262144 * 262144 + c div 4096 mod 64 * 4096 + c div 64 mod 64 * 64 + c mod 64 = c"
  using div_mult_mod_eq [of c 64] div_mult_mod_eq [of "c div 64" 64]
    div_mult_mod_eq [of "c div 64 div 64" 64]
  unfolding div_64_twice div_64_thrice by linarith

lemma second_ok_three:
  assumes "0x800 \<le> c" "c < 0x10000" "is_scalar c"
  shows "second_ok (0xE0 + c div 4096) (0x80 + c div 64 mod 64)"
proof -
  define d where "d = c div 64"
  have d: "d div 64 * 64 + d mod 64 = d" "d mod 64 < 64" by simp_all
  have lo: "32 \<le> d" using assms(1) by (simp add: d_def div_le_mono [of "0x800" c 64, simplified])
  have sur: "d < 864 \<or> 896 \<le> d"
  proof (cases "c < 0xD800")
    case True
    then show ?thesis by (simp add: d_def less_mult_imp_div_less)
  next
    case False
    with assms(3) have "0xE000 \<le> c" by (simp add: is_scalar_def)
    then show ?thesis using div_le_mono [of "0xE000" c 64] by (simp add: d_def)
  qed
  have hi: "d < 1024" using less_mult_imp_div_less [of c 1024 64] assms(2) by (simp add: d_def)
  define q r where "q = d div 64" and "r = d mod 64"
  have qr: "q * 64 + r = d" "r < 64" using d by (simp_all add: q_def r_def)
  show ?thesis
    unfolding second_ok_def is_cont_def div_64_twice d_def [symmetric] q_def [symmetric] r_def [symmetric]
    using qr lo hi sur by auto
qed

lemma second_ok_four:
  assumes "0x10000 \<le> c" "c \<le> 0x10FFFF"
  shows "second_ok (0xF0 + c div 262144) (0x80 + c div 4096 mod 64)"
proof -
  define d where "d = c div 4096"
  have e: "c div 262144 = d div 64" by (simp add: d_def div_mult2_eq [symmetric])
  have d: "d div 64 * 64 + d mod 64 = d" "d mod 64 < 64" by simp_all
  have lo: "16 \<le> d" using div_le_mono [OF assms(1), of 4096] by (simp add: d_def)
  have hi: "d \<le> 271" using div_le_mono [OF assms(2), of 4096] by (simp add: d_def)
  define q r where "q = d div 64" and "r = d mod 64"
  have qr: "q * 64 + r = d" "r < 64" using d by (simp_all add: q_def r_def)
  show ?thesis
    unfolding second_ok_def is_cont_def e d_def [symmetric] q_def [symmetric] r_def [symmetric]
    using qr lo hi by auto
qed

lemma lead_three: "(c :: nat) < 0x10000 \<Longrightarrow> c div 4096 \<le> 15"
  using less_mult_imp_div_less [of c 16 4096] by simp

lemma lead_four: "(c :: nat) \<le> 0x10FFFF \<Longrightarrow> c div 262144 \<le> 4"
  using div_le_mono [of c "0x10FFFF" 262144] by simp

lemma lead_two: "0x80 \<le> (c :: nat) \<Longrightarrow> c < 0x800 \<Longrightarrow> 2 \<le> c div 64 \<and> c div 64 \<le> 31"
  using less_mult_imp_div_less [of c 32 64] div_le_mono [of "0x80" c 64] by simp

lemma cont_mod: "is_cont (0x80 + n mod 64)"
  using mod_less_divisor [of 64 n] by (simp add: is_cont_def)

lemma utf8_scan_char:
  assumes "is_scalar c"
  shows "utf8_scan (utf8_char c @ rest) = Some c # utf8_scan rest"
proof -
  consider (one) "c < 0x80" | (two) "0x80 \<le> c" "c < 0x800"
    | (three) "0x800 \<le> c" "c < 0x10000" | (four) "0x10000 \<le> c"
    by linarith
  then show ?thesis
  proof cases
    case one
    then show ?thesis by (simp add: utf8_char_def)
  next
    case two
    obtain q where q: "c div 64 = q" "2 \<le> q" "q \<le> 31"
      using lead_two [OF two] by blast
    from two have "utf8_char c = [0xC0 + q, 0x80 + c mod 64]"
      by (simp add: utf8_char_def q(1))
    with q show ?thesis
      using recompose_1 [of c] by (simp add: cont_mod)
  next
    case three
    with lead_three second_ok_three [OF three assms] show ?thesis
      using recompose_2 [of c] by (simp add: utf8_char_def cont_mod)
  next
    case four
    then have le: "c \<le> 0x10FFFF" using assms by (auto simp: is_scalar_def)
    from four lead_four [OF le] second_ok_four [OF four le] show ?thesis
      using recompose_3 [of c] by (simp add: utf8_char_def cont_mod)
  qed
qed

lemma utf8_scan_encode:
  "valid_str s \<Longrightarrow> utf8_scan (concat (map utf8_char s)) = map Some s"
  by (induction s) (auto simp: valid_str_def utf8_scan_char simp del: utf8_scan.simps(2))

lemma unat_utf8_encode:
  assumes "valid_str s"
  shows "map unat (utf8_encode s) = concat (map utf8_char s)"
proof -
  have "unat (of_nat b :: u8) = b" if "b \<in> set (concat (map utf8_char s))" for b
    using that assms utf8_char_byte
    by (fastforce simp: valid_str_def list_all_iff unat_of_nat)
  then have "map (unat \<circ> (of_nat :: nat \<Rightarrow> u8)) (concat (map utf8_char s)) = concat (map utf8_char s)"
    by (intro map_idI) (simp only: o_apply)
  then show ?thesis
    unfolding utf8_encode_def map_map .
qed

lemma from_utf8_encode: "valid_str s \<Longrightarrow> from_utf8 (utf8_encode s) = Some s"
  by (simp add: from_utf8_def unat_utf8_encode utf8_scan_encode)

lemma from_utf8_lossy_strict: "from_utf8 bs = Some s \<Longrightarrow> from_utf8_lossy bs = s"
  by (simp add: from_utf8_def from_utf8_lossy_def all_some_iff comp_def)

lemma from_utf8_lossy_encode: "valid_str s \<Longrightarrow> from_utf8_lossy (utf8_encode s) = s"
  by (simp add: from_utf8_lossy_strict from_utf8_encode)

lemma utf8_encode_inj:
  "valid_str s \<Longrightarrow> valid_str t \<Longrightarrow> utf8_encode s = utf8_encode t \<Longrightarrow> s = t"
  by (metis from_utf8_encode option.inject)

end
