(* ===== verification/Zs_Value.thy ===== *)
theory Zs_Value
  imports Zs_Utf8 "HOL-Library.List_Lexorder"
begin

text \<open>
  The values that cross the program's boundaries and their conversions (\<open>src/src/context.rs\<close>,
  private helpers): the evaluator's \<open>SchemeVal\<close>, ciborium's \<open>Value\<close>, the two conversions between
  them, and \<open>decode_reply\<close>, which reads an actor's reply.

  Both enumerations belong to crates that are not part of the repository, so only the
  constructors the source names are given; everything else is one constructor over a type
  parameter (\<open>SOther\<close> for lambdas and builtins, \<open>COther\<close> for what ciborium may add), and what the
  source asks those crates to do with them (\<open>display\<close>, the \<open>Debug\<close> text, CBOR decoding) is a
  parameter of the definitions.  An \<open>f64\<close> is its 64-bit pattern: the code only copies it.
\<close>

section \<open>Data\<close>

datatype 'l scheme_val =
    SStr rstr
  | SBytes bytes
  | SInt u64
  | SFloat u64
  | SBool bool
  | SNil
  | SList "'l scheme_val list"
  | SMap "(rstr \<times> 'l scheme_val) list"
  | SOther 'l

datatype 'o cbor =
    CText rstr
  | CBytes bytes
  | CInteger int
  | CFloat u64
  | CBool bool
  | CNull
  | CArray "'o cbor list"
  | CMap "('o cbor \<times> 'o cbor) list"
  | CTag u64 "'o cbor"
  | COther 'o

text \<open>
  A \<open>BTreeMap<String, _>\<close> is its entries in iteration order: strictly ascending keys.  The order
  of \<open>String\<close> (bytes of the UTF-8 form) is the lexicographic order of the code points.
\<close>

fun btree_insert :: "'k::linorder \<Rightarrow> 'v \<Rightarrow> ('k \<times> 'v) list \<Rightarrow> ('k \<times> 'v) list" where
  "btree_insert k v [] = [(k, v)]"
| "btree_insert k v ((k', v') # m) =
     (if k < k' then (k, v) # (k', v') # m
      else if k = k' then (k, v) # m
      else (k', v') # btree_insert k v m)"

definition btree_ok :: "('k::linorder \<times> 'v) list \<Rightarrow> bool" where
  "btree_ok m = sorted_wrt (<) (map fst m)"

subsection \<open>The ordered-map interface\<close>

text \<open>What the conversions rely on: an insert is seen by lookups, and keeps the invariant.\<close>

locale ordered_map =
  fixes empty :: "'m"
    and insert :: "'k \<Rightarrow> 'v \<Rightarrow> 'm \<Rightarrow> 'm"
    and lookup :: "'m \<Rightarrow> 'k \<Rightarrow> 'v option"
    and invar :: "'m \<Rightarrow> bool"
  assumes invar_empty: "invar empty"
    and invar_insert: "invar m \<Longrightarrow> invar (insert k v m)"
    and lookup_empty: "lookup empty k = None"
    and lookup_insert: "invar m \<Longrightarrow> lookup (insert k v m) = (lookup m)(k \<mapsto> v)"
begin

lemma invar_fold: "invar m \<Longrightarrow> invar (fold (\<lambda>(k, v). insert k v) kvs m)"
  by (induction kvs arbitrary: m) (auto intro: invar_insert)

text \<open>Inserting a list of entries from left to right: the last entry of a key wins.\<close>

lemma lookup_fold:
  "invar m \<Longrightarrow> lookup (fold (\<lambda>(k, v). insert k v) kvs m) = lookup m ++ map_of (rev kvs)"
proof (induction kvs arbitrary: m)
  case Nil
  then show ?case by simp
next
  case (Cons kv kvs)
  obtain k v where kv: "kv = (k, v)" by (cases kv)
  have "lookup (fold (\<lambda>(k, v). insert k v) kvs (insert k v m)) =
      (lookup m)(k \<mapsto> v) ++ map_of (rev kvs)"
    using Cons.IH [OF invar_insert [OF Cons.prems]] by (simp only: lookup_insert [OF Cons.prems])
  also have "\<dots> = lookup m ++ map_of (rev kvs @ [(k, v)])"
    by (simp add: map_add_def fun_eq_iff split: option.splits)
  finally show ?case by (simp add: kv)
qed

lemma lookup_from_list: "lookup (fold (\<lambda>(k, v). insert k v) kvs empty) = map_of (rev kvs)"
  using lookup_fold [OF invar_empty, of kvs] lookup_empty by (simp add: map_add_def fun_eq_iff split: option.splits)

end

lemma set_fst_btree_insert: "fst ` set (btree_insert k v m) = Set.insert k (fst ` set m)"
  by (induction k v m rule: btree_insert.induct) auto

lemma btree_ok_Cons: "btree_ok ((k, v) # m) \<longleftrightarrow> (\<forall>k' \<in> fst ` set m. k < k') \<and> btree_ok m"
  by (auto simp: btree_ok_def)

lemma btree_ok_insert: "btree_ok m \<Longrightarrow> btree_ok (btree_insert k v m)"
proof (induction k v m rule: btree_insert.induct)
  case (2 k v k' v' m)
  have "\<forall>j \<in> fst ` set (btree_insert k v m). k' < j" if "k' < k"
    using 2(2) that by (simp only: set_fst_btree_insert btree_ok_Cons) auto
  with 2 show ?case
    by (auto simp: btree_ok_Cons)
qed (simp add: btree_ok_def)

lemma map_of_btree_insert:
  "btree_ok m \<Longrightarrow> map_of (btree_insert k v m) = (map_of m)(k \<mapsto> v)"
proof (induction k v m rule: btree_insert.induct)
  case (2 k v k' v' m)
  then have "btree_ok m" by (simp add: btree_ok_Cons)
  with 2 show ?case by (auto simp: fun_eq_iff)
qed simp

interpretation btree: ordered_map "[]" btree_insert map_of btree_ok
  by unfold_locales (auto simp: btree_ok_insert map_of_btree_insert, simp add: btree_ok_def)

text \<open>Inserting above every key appends, so inserting an ordered list rebuilds it.\<close>

lemma btree_insert_last:
  "\<forall>k' \<in> fst ` set m. k' < k \<Longrightarrow> btree_insert k v m = m @ [(k, v)]"
  by (induction k v m rule: btree_insert.induct) auto

lemma fold_btree_insert_ordered:
  "btree_ok (m @ kvs) \<Longrightarrow> fold (\<lambda>(k, v). btree_insert k v) kvs m = m @ kvs"
proof (induction kvs arbitrary: m)
  case (Cons kv kvs)
  obtain k v where kv: "kv = (k, v)" by (cases kv)
  have "\<forall>k' \<in> fst ` set m. k' < k"
    using Cons.prems by (auto simp: kv btree_ok_def sorted_wrt_append)
  then have "btree_insert k v m = m @ [(k, v)]" by (rule btree_insert_last)
  with Cons.IH [of "m @ [(k, v)]"] Cons.prems show ?case by (simp add: kv)
qed simp

section \<open>Conversions\<close>

fun scheme_val_to_cbor :: "('l scheme_val \<Rightarrow> rstr) \<Rightarrow> 'l scheme_val \<Rightarrow> 'o cbor" where
  "scheme_val_to_cbor display (SStr s) = CText s"
| "scheme_val_to_cbor display (SBytes bs) = CBytes bs"
| "scheme_val_to_cbor display (SInt n) = CInteger (sint n)"
| "scheme_val_to_cbor display (SFloat f) = CFloat f"
| "scheme_val_to_cbor display (SBool b) = CBool b"
| "scheme_val_to_cbor display SNil = CNull"
| "scheme_val_to_cbor display (SList items) = CArray (map (scheme_val_to_cbor display) items)"
| "scheme_val_to_cbor display (SMap m) =
     CMap (map (\<lambda>(key, v). (CText key, scheme_val_to_cbor display v)) m)"
| "scheme_val_to_cbor display (SOther l) = CText (display (SOther l))"

text \<open>
  The loop over a CBOR map: \<open>Some\<close> of the tree built so far extended by every pair, \<open>None\<close> as
  soon as a key is not text (the loop's early return).
\<close>

fun text_key_map ::
  "('o cbor \<times> 'v) list \<Rightarrow> (rstr \<times> 'v) list \<Rightarrow> (rstr \<times> 'v) list option" where
  "text_key_map [] m = Some m"
| "text_key_map ((CText key, v) # pairs) m = text_key_map pairs (btree_insert key v m)"
| "text_key_map (_ # pairs) m = None"

fun cbor_to_scheme_val :: "('o cbor \<Rightarrow> rstr) \<Rightarrow> 'o cbor \<Rightarrow> 'l scheme_val" where
  "cbor_to_scheme_val debug (CText s) = SStr s"
| "cbor_to_scheme_val debug (CBytes bs) = SBytes bs"
| "cbor_to_scheme_val debug (CInteger n) =
     (if - (2 ^ 63) \<le> n \<and> n < 2 ^ 63 then SInt (word_of_int n) else SStr (show_int n))"
| "cbor_to_scheme_val debug (CFloat f) = SFloat f"
| "cbor_to_scheme_val debug (CBool b) = SBool b"
| "cbor_to_scheme_val debug CNull = SNil"
| "cbor_to_scheme_val debug (CArray items) = SList (map (cbor_to_scheme_val debug) items)"
| "cbor_to_scheme_val debug (CMap pairs) =
     (case text_key_map (map (\<lambda>(k, v). (k, cbor_to_scheme_val debug v)) pairs) [] of
        Some m \<Rightarrow> SMap m
      | None \<Rightarrow> SList (map (\<lambda>(k, v). SList [cbor_to_scheme_val debug k, cbor_to_scheme_val debug v]) pairs))"
| "cbor_to_scheme_val debug (CTag t inner) = cbor_to_scheme_val debug inner"
| "cbor_to_scheme_val debug (COther x) = SStr (debug (COther x))"

definition decode_reply ::
  "(bytes \<Rightarrow> 'o cbor option) \<Rightarrow> ('o cbor \<Rightarrow> rstr) \<Rightarrow> bytes \<Rightarrow> (rstr, 'l scheme_val) result" where
  "decode_reply from_reader debug payload =
     (case from_reader payload of
        None \<Rightarrow> Ok (SStr (from_utf8_lossy payload))
      | Some val \<Rightarrow>
          (case val of
             CText s \<Rightarrow>
               if s = lit '':ok'' then Ok (SStr s) else Ok (cbor_to_scheme_val debug val)
           | CArray (CText verb # rest) \<Rightarrow>
               if verb = lit '':ok'' then
                 (case rest of
                    v # _ \<Rightarrow> Ok (cbor_to_scheme_val debug v)
                  | [] \<Rightarrow> Ok (SStr (lit '':ok'')))
               else if verb = lit '':error'' then
                 (case rest of
                    CText s # _ \<Rightarrow> Err s
                  | _ \<Rightarrow> Err (from_utf8_lossy payload))
               else Ok (cbor_to_scheme_val debug val)
           | _ \<Rightarrow> Ok (cbor_to_scheme_val debug val)))"

section \<open>Well-formed data values\<close>

text \<open>
  The values the conversions preserve: no lambda or builtin anywhere, and every map in the order
  a \<open>BTreeMap\<close> keeps it in.
\<close>

fun data_val :: "'l scheme_val \<Rightarrow> bool" where
  "data_val (SList items) = list_all data_val items"
| "data_val (SMap m) = (btree_ok m \<and> list_all (\<lambda>(k, v). data_val v) m)"
| "data_val (SOther l) = False"
| "data_val v = True"

lemma text_key_map_text:
  "text_key_map (map (\<lambda>(k, v). (CText k, v)) kvs) m = Some (fold (\<lambda>(k, v). btree_insert k v) kvs m)"
  by (induction kvs arbitrary: m) auto

lemma text_key_map_ok:
  "text_key_map pairs m = Some m' \<Longrightarrow> btree_ok m \<Longrightarrow> btree_ok m'"
  by (induction pairs m rule: text_key_map.induct) (auto simp: btree_ok_insert)

lemma set_btree_insert: "kv \<in> set (btree_insert k v m) \<Longrightarrow> kv = (k, v) \<or> kv \<in> set m"
  by (induction k v m rule: btree_insert.induct) (auto split: if_splits)

lemma text_key_map_vals:
  "text_key_map pairs m = Some m' \<Longrightarrow> (k, v) \<in> set m' \<Longrightarrow> v \<in> snd ` set pairs \<or> (k, v) \<in> set m"
  by (induction pairs m rule: text_key_map.induct) (fastforce dest: set_btree_insert)+

text \<open>A map with a key that is not text becomes a list of two-element lists.\<close>

lemma text_key_map_None:
  "text_key_map pairs m = None \<longleftrightarrow> (\<exists>(k, v) \<in> set pairs. \<forall>s. k \<noteq> CText s)"
  by (induction pairs m rule: text_key_map.induct) auto

section \<open>Correctness of the conversions\<close>

lemma word_of_sint_range: "- (2 ^ 63) \<le> sint (n :: u64) \<and> sint n < 2 ^ 63"
  using sint_greater_eq [of n] sint_less [of n] by simp

lemma cbor_round_trip_data:
  fixes debug :: "'o cbor \<Rightarrow> rstr"
  assumes "data_val v"
  shows "cbor_to_scheme_val debug (scheme_val_to_cbor display v) = v"
  using assms
proof (induction v rule: data_val.induct)
  case (1 items)
  then show ?case by (auto simp: list_all_iff intro!: map_idI)
next
  case (2 m)
  have "map (\<lambda>(k, v). (k, cbor_to_scheme_val debug v))
          (map (\<lambda>(k, v). (CText k :: 'o cbor, scheme_val_to_cbor display v)) m)
        = map (\<lambda>(k, v). (CText k, v)) m"
    using 2 by (auto simp: list_all_iff)
  moreover have "fold (\<lambda>(k, v). btree_insert k v) m [] = m"
    using fold_btree_insert_ordered [of "[]" m] 2(2) by simp
  ultimately show ?case by (simp add: text_key_map_text del: map_map)
qed (use word_of_sint_range in simp_all)

text \<open>
  C18.  A data value survives the trip to CBOR and back: numbers keep all 64 bits, maps keep
  their order, nesting is preserved.
\<close>

theorem cbor_round_trip:
  "data_val v \<Longrightarrow> cbor_to_scheme_val debug (scheme_val_to_cbor display v) = v"
  by (rule cbor_round_trip_data)

text \<open>Whatever CBOR a peer sends, the value built from it is a well-formed data value.\<close>

lemma cbor_to_scheme_val_data:
  fixes debug :: "'o cbor \<Rightarrow> rstr"
  shows "data_val (cbor_to_scheme_val debug c :: 'l scheme_val)"
proof (induction c)
  case (CMap pairs)
  let ?conv = "\<lambda>c. cbor_to_scheme_val debug c :: 'l scheme_val"
  have IH: "data_val (?conv k) \<and> data_val (?conv v)" if "(k, v) \<in> set pairs" for k v
    using CMap [OF that] by auto
  show ?case
  proof (cases "text_key_map (map (\<lambda>(k, v). (k, ?conv v)) pairs) []")
    case None
    with IH show ?thesis by (auto simp: list_all_iff)
  next
    case (Some m)
    have "btree_ok m" using text_key_map_ok [OF Some] by (simp add: btree_ok_def)
    moreover have "data_val v" if "(k, v) \<in> set m" for k v
      using text_key_map_vals [OF Some that] IH by auto
    ultimately show ?thesis using Some by (auto simp: list_all_iff)
  qed
qed (auto simp: list_all_iff)

theorem cbor_round_trip_witness:
  "cbor_to_scheme_val (\<lambda>_ :: unit cbor. [])
     (scheme_val_to_cbor (\<lambda>_. [])
        (SMap [(lit ''a'', SInt (- 5)), (lit ''b'', SList [SNil, SBytes [137]])] :: unit scheme_val))
   = (SMap [(lit ''a'', SInt (- 5)), (lit ''b'', SList [SNil, SBytes [137]])] :: unit scheme_val)"
proof (rule cbor_round_trip)
  show "data_val (SMap [(lit ''a'', SInt (- 5)), (lit ''b'', SList [SNil, SBytes [137]])] :: unit scheme_val)"
    by (simp add: btree_ok_def)
qed

text \<open>
  An incoming CBOR integer is never confused with another one: inside the \<open>i64\<close> range it
  becomes the integer itself, outside it becomes its decimal text.
\<close>

lemma cbor_integer_injective:
  "inj (\<lambda>n. cbor_to_scheme_val debug (CInteger n))"
proof (rule injI)
  fix m n
  assume eq: "cbor_to_scheme_val debug (CInteger m) = cbor_to_scheme_val debug (CInteger n)"
  have sint_back: "sint (word_of_int k :: u64) = k" if "- (2 ^ 63) \<le> k" "k < 2 ^ 63" for k
    using that by (simp add: signed_of_int signed_take_bit_int_eq_self)
  show "m = n"
  proof (cases "- (2 ^ 63) \<le> m \<and> m < 2 ^ 63")
    case True
    with eq have n: "- (2 ^ 63) \<le> n \<and> n < 2 ^ 63"
      and w: "(word_of_int m :: u64) = word_of_int n"
      by (auto split: if_splits)
    from w have "sint (word_of_int m :: u64) = sint (word_of_int n :: u64)" by simp
    with True n sint_back show ?thesis by simp
  next
    case False
    with eq have "show_int m = show_int n" by (auto split: if_splits)
    then show ?thesis by (rule show_int_inj)
  qed
qed

subsection \<open>Replies\<close>

text \<open>
  A reply is an error exactly when it decodes to an array led by the atom \<open>:error\<close>; the
  reason is the text that follows, or the raw payload when none does.
\<close>

lemma decode_reply_Err_iff:
  "decode_reply from_reader debug payload = Err reason \<longleftrightarrow>
     (\<exists>rest. from_reader payload = Some (CArray (CText (lit '':error'') # rest)) \<and>
        reason = (case rest of CText s # _ \<Rightarrow> s | _ \<Rightarrow> from_utf8_lossy payload))"
  unfolding decode_reply_def
  by (auto split: option.splits cbor.splits list.splits)

text \<open>
  A peer that answers \<open>[:ok v]\<close> with a data value delivers exactly that value to the
  caller, and a bare \<open>:ok\<close>, in either form, is delivered as the atom and not as nil.
\<close>

lemma decode_reply_ok:
  assumes "data_val v"
    and "from_reader p_val = Some (CArray [CText (lit '':ok''), scheme_val_to_cbor display v])"
    and "from_reader p_atom = Some (CText (lit '':ok''))"
    and "from_reader p_tuple = Some (CArray [CText (lit '':ok'')])"
  shows "decode_reply from_reader debug p_val = Ok v
       \<and> decode_reply from_reader debug p_atom = Ok (SStr (lit '':ok''))
       \<and> decode_reply from_reader debug p_tuple = Ok (SStr (lit '':ok''))"
  using assms by (simp add: decode_reply_def cbor_round_trip_data)

text \<open>A payload that is not CBOR is taken as text, as the peer wrote it.\<close>

lemma decode_reply_plain_text:
  "from_reader (utf8_encode s) = None \<Longrightarrow> valid_str s \<Longrightarrow>
     decode_reply from_reader debug (utf8_encode s) = Ok (SStr s)"
  by (simp add: decode_reply_def from_utf8_lossy_encode)

section \<open>Evaluation errors\<close>

text \<open>
  \<open>SchemeErr\<close>; the arity counts are the text their \<open>Display\<close> gives.  \<open>format_scheme_err\<close>
  (\<open>src/src/daemon.rs\<close>) is the one way an error becomes text for a user, and \<open>render_result\<close> is
  the final \<open>match\<close> that both evaluators of the program apply to an evaluation's result.
\<close>

datatype scheme_err =
    Runtime rstr
  | MaError rstr
  | Undefined rstr
  | Arity rstr rstr rstr
  | ParseError rstr

fun format_scheme_err :: "scheme_err \<Rightarrow> rstr" where
  "format_scheme_err (Runtime msg) = lit ''error: '' @ msg"
| "format_scheme_err (MaError msg) = lit ''ma error: '' @ msg"
| "format_scheme_err (Undefined s) = lit ''undefined: '' @ s"
| "format_scheme_err (Arity name expected got) =
     name @ lit '': expected '' @ expected @ lit '' args, got '' @ got"
| "format_scheme_err (ParseError msg) = lit ''parse error: '' @ msg"

type_synonym outcome = "(rstr, rstr option) result"

definition render_result ::
  "('l scheme_val \<Rightarrow> rstr) \<Rightarrow> (scheme_err, 'l scheme_val) result \<Rightarrow> outcome" where
  "render_result display r =
     (case r of
        Ok v \<Rightarrow> (case v of SNil \<Rightarrow> Ok None | _ \<Rightarrow> Ok (Some (display v)))
      | Err e \<Rightarrow> Err (format_scheme_err e))"

lemma render_result_None_iff: "render_result display r = Ok None \<longleftrightarrow> r = Ok SNil"
  by (auto simp: render_result_def split: sum.splits scheme_val.splits)

lemma render_result_Err_iff:
  "render_result display r = Err m \<longleftrightarrow> (\<exists>e. r = Err e \<and> m = format_scheme_err e)"
  by (auto simp: render_result_def split: sum.splits scheme_val.splits)

lemma render_result_Some:
  "v \<noteq> SNil \<Longrightarrow> render_result display (Ok v) = Ok (Some (display v))"
  by (cases v) (simp_all add: render_result_def)

end
