(* ===== verification/Zs_Types.thy ===== *)
theory Zs_Types
  imports Zs_Value
begin

text \<open>
  The type invariants that Rust gives the program's values, proved of the model's own conversions
  (\<open>decode_reply\<close>, \<open>cbor_to_scheme_val\<close> and \<open>scheme_val_to_cbor\<close> of \<open>src/src/context.rs\<close>): every
  string holds Unicode scalar values only, every map is an ordered \<open>BTreeMap\<close>.
\<close>

section \<open>Typed values\<close>

fun typed_val :: "'l scheme_val \<Rightarrow> bool" where
  "typed_val (SStr s) = valid_str s"
| "typed_val (SList items) = list_all typed_val items"
| "typed_val (SMap m) = (btree_ok m \<and> list_all (\<lambda>(k, v). valid_str k \<and> typed_val v) m)"
| "typed_val (SOther l) = False"
| "typed_val v = True"

fun typed_cbor :: "'o cbor \<Rightarrow> bool" where
  "typed_cbor (CText s) = valid_str s"
| "typed_cbor (CArray items) = list_all typed_cbor items"
| "typed_cbor (CMap pairs) = list_all (\<lambda>(k, v). typed_cbor k \<and> typed_cbor v) pairs"
| "typed_cbor (CTag t inner) = typed_cbor inner"
| "typed_cbor c = True"

lemma typed_val_data: "typed_val v \<Longrightarrow> data_val v"
  by (induction v rule: typed_val.induct) (auto simp: list_all_iff)

section \<open>Decoded text\<close>

lemma second_ok_range: "second_ok b0 b1 \<Longrightarrow> 0x80 \<le> b1 \<and> b1 \<le> 0xBF"
  by (auto simp: second_ok_def is_cont_def split: if_splits)

lemma scalar_of_two:
  "(2 :: nat) \<le> x \<Longrightarrow> x \<le> 31 \<Longrightarrow> y \<le> 63 \<Longrightarrow> is_scalar (x * 64 + y)"
  by (simp add: is_scalar_def)

lemma scalar_of_three:
  assumes "(x :: nat) \<le> 15" "y \<le> 63" "z \<le> 63" "x = 13 \<longrightarrow> y \<le> 31"
  shows "is_scalar (x * 4096 + y * 64 + z)"
proof -
  consider "x < 13" | "x = 13" | "13 < x" by linarith
  then show ?thesis using assms by cases (simp_all add: is_scalar_def)
qed

lemma scalar_of_four:
  assumes "(x :: nat) \<le> 4" "y \<le> 63" "z \<le> 63" "w \<le> 63" "x = 0 \<longrightarrow> 16 \<le> y" "x = 4 \<longrightarrow> y \<le> 15"
  shows "is_scalar (x * 262144 + y * 4096 + z * 64 + w)"
proof -
  consider "x = 0" | "0 < x" "x < 4" | "x = 4" using assms(1) by linarith
  then show ?thesis using assms by cases (simp_all add: is_scalar_def)
qed

lemma three_bytes_scalar:
  assumes "0xE0 \<le> b0" "b0 \<le> 0xEF" "second_ok b0 b1" "is_cont b2"
  shows "is_scalar ((b0 - 0xE0) * 4096 + (b1 - 0x80) * 64 + (b2 - 0x80))"
  using assms second_ok_range [OF assms(3)]
  by (intro scalar_of_three) (auto simp: is_cont_def second_ok_def split: if_splits)

lemma four_bytes_scalar:
  assumes "0xF0 \<le> b0" "b0 \<le> 0xF4" "second_ok b0 b1" "is_cont b2" "is_cont b3"
  shows "is_scalar ((b0 - 0xF0) * 262144 + (b1 - 0x80) * 4096 + (b2 - 0x80) * 64 + (b3 - 0x80))"
  using assms second_ok_range [OF assms(3)]
  by (intro scalar_of_four) (auto simp: is_cont_def second_ok_def split: if_splits)

lemma two_bytes_scalar:
  "0xC2 \<le> b0 \<Longrightarrow> b0 \<le> 0xDF \<Longrightarrow> is_cont b1 \<Longrightarrow> is_scalar ((b0 - 0xC0) * 64 + (b1 - 0x80))"
  by (rule scalar_of_two) (auto simp: is_cont_def)

text \<open>Each step of the scanner yields one item, a scalar value if any, and goes on behind it.\<close>

definition scans :: "rchar option list \<Rightarrow> nat \<Rightarrow> bool" where
  "scans r n \<longleftrightarrow> (\<exists>x bs. r = x # utf8_scan bs \<and> length bs \<le> n \<and> (\<forall>c. x = Some c \<longrightarrow> is_scalar c))"

lemma scansI [intro]:
  "length bs \<le> n \<Longrightarrow> scans (None # utf8_scan bs) n"
  "length bs \<le> n \<Longrightarrow> is_scalar c \<Longrightarrow> scans (Some c # utf8_scan bs) n"
  "scans [None] n"
proof -
  show "scans [None] n" unfolding scans_def by (intro exI [of _ None] exI [of _ "[]"]) simp
qed (auto simp: scans_def)

lemma scans_cases:
  "(b \<Longrightarrow> scans r n) \<Longrightarrow> (\<not> b \<Longrightarrow> scans r' n) \<Longrightarrow> scans (if b then r else r') n"
  "(bs = [] \<Longrightarrow> scans r n) \<Longrightarrow> (\<And>y ys. bs = y # ys \<Longrightarrow> scans (f y ys) n) \<Longrightarrow>
     scans (case bs of [] \<Rightarrow> r | y # ys \<Rightarrow> f y ys) n"
  by (simp_all split: list.split)

lemma utf8_scan_step: "scans (utf8_scan (b0 # bs)) (length bs)"
  by (subst utf8_scan.simps, intro scans_cases scansI)
    (simp_all add: three_bytes_scalar four_bytes_scalar two_bytes_scalar, simp_all add: is_scalar_def)

lemma utf8_scan_scalar: "Some c \<in> set (utf8_scan bs) \<Longrightarrow> is_scalar c"
proof (induction "length bs" arbitrary: bs rule: less_induct)
  case less
  show ?case
  proof (cases bs)
    case (Cons b0 bs')
    from utf8_scan_step [of b0 bs'] obtain x ys where "utf8_scan bs = x # utf8_scan ys"
      "length ys \<le> length bs'" "\<forall>c. x = Some c \<longrightarrow> is_scalar c" unfolding scans_def Cons by blast
    with less.prems less.hyps [of ys] Cons show ?thesis by (auto simp del: utf8_scan.simps(2))
  qed (use less.prems in simp)
qed

lemma from_utf8_lossy_valid: "valid_str (from_utf8_lossy bs)"
proof -
  have "is_scalar c" if "c = (case x of None \<Rightarrow> 0xFFFD | Some c \<Rightarrow> c)" "x \<in> set (utf8_scan (map unat bs))" for c x
    using that utf8_scan_scalar by (cases x) (auto simp: is_scalar_def)
  then show ?thesis by (fastforce simp: from_utf8_lossy_def valid_str_def list_all_iff)
qed

lemma from_utf8_valid: "from_utf8 bs = Some s \<Longrightarrow> valid_str s"
  using from_utf8_lossy_valid [of bs] by (simp add: from_utf8_lossy_strict)

lemma show_int_valid: "valid_str (show_int i)"
  using nat_digits_range by (fastforce simp: valid_str_def list_all_iff show_int_def is_scalar_def)

section \<open>The conversions\<close>

lemma text_key_map_keys:
  "text_key_map pairs m = Some m' \<Longrightarrow> (k, v) \<in> set m' \<Longrightarrow> CText k \<in> fst ` set pairs \<or> k \<in> fst ` set m"
  by (induction pairs m rule: text_key_map.induct) (force simp: set_fst_btree_insert)+

lemma cbor_to_scheme_val_typed:
  fixes debug :: "'o cbor \<Rightarrow> rstr"
  assumes "\<And>x. valid_str (debug x)" and "typed_cbor c"
  shows "typed_val (cbor_to_scheme_val debug c :: 'l scheme_val)"
  using assms(2)
proof (induction c)
  case (CMap pairs)
  let ?conv = "\<lambda>c. cbor_to_scheme_val debug c :: 'l scheme_val"
  have IH: "typed_val (?conv k) \<and> typed_val (?conv v) \<and> typed_cbor k" if "(k, v) \<in> set pairs" for k v
    using CMap.IH [OF that] CMap.prems that by (fastforce simp: list_all_iff)
  show ?case
  proof (cases "text_key_map (map (\<lambda>(k, v). (k, ?conv v)) pairs) []")
    case None
    with IH show ?thesis by (auto simp: list_all_iff)
  next
    case (Some m)
    have "btree_ok m" using text_key_map_ok [OF Some] by (simp add: btree_ok_def)
    moreover have "typed_val v \<and> valid_str k" if "(k, v) \<in> set m" for k v
      using text_key_map_vals [OF Some that] text_key_map_keys [OF Some that] IH by fastforce
    ultimately show ?thesis using Some by (auto simp: list_all_iff)
  qed
qed (use assms(1) show_int_valid in \<open>auto simp: list_all_iff\<close>)

lemma scheme_val_to_cbor_typed:
  "typed_val v \<Longrightarrow> typed_cbor (scheme_val_to_cbor display v)"
  by (induction v rule: typed_val.induct) (auto simp: list_all_iff)

lemma valid_ok_atom: "valid_str (lit '':ok'')"
  by (simp add: valid_str_def is_scalar_def)



end
