(* ===== verification/Zs_Lines.thy ===== *)
theory Zs_Lines
  imports Zs_Value
begin

text \<open>
  Routing of one submitted line (\<open>src/src/scheme/mod.rs\<close>) and execution of a script file
  (\<open>src/src/executor.rs\<close>).  The evaluator itself is the crate \<open>ma-zscheme\<close>, which is not part of
  the repository: it is a parameter, a function from the source text and the state the evaluator
  sees to the texts it displayed, its result and the new state.
\<close>

type_synonym 'l eval_result = "(scheme_err, 'l scheme_val) result"
type_synonym ('w, 'l) evaluation = "'w \<Rightarrow> rstr list \<times> 'l eval_result \<times> 'w"

section \<open>Dot command lines\<close>

definition is_dot_command_line :: "rstr \<Rightarrow> bool" where
  "is_dot_command_line source =
     (let s = trim source in
      if newline \<in> set s then False
      else
        (let path = (case strip_prefix s (lit ''#'') of Some r \<Rightarrow> r | None \<Rightarrow> s) in
         case path of
           c0 # c1 # _ \<Rightarrow> c0 = chr CHR ''.'' \<and> is_ascii_alphabetic c1
         | _ \<Rightarrow> False))"

definition eval_dot_line ::
  "(rstr \<Rightarrow> ('w, 'l) evaluation) \<Rightarrow> rstr \<Rightarrow> ('w, 'l) evaluation" where
  "eval_dot_line eval_dot source =
     (let s = trim source in
      eval_dot (case strip_prefix s (lit ''#'') of Some r \<Rightarrow> r | None \<Rightarrow> s))"

definition eval_line ::
  "(rstr \<Rightarrow> ('w, 'l) evaluation) \<Rightarrow> (rstr \<Rightarrow> ('w, 'l) evaluation) \<Rightarrow> rstr \<Rightarrow> ('w, 'l) evaluation" where
  "eval_line eval_dot eval_source source =
     (if is_dot_command_line source then eval_dot_line eval_dot source else eval_source source)"

subsection \<open>The grammar the routing recognises\<close>

text \<open>The command itself: one line, a dot, an ASCII letter.\<close>

definition dot_command :: "rstr \<Rightarrow> bool" where
  "dot_command p \<longleftrightarrow>
     newline \<notin> set p \<and>
     (\<exists>c rest. p = chr CHR ''.'' # c # rest \<and> is_ascii_alphabetic c)"

lemma not_whitespace_hash_dot [simp]:
  "\<not> is_whitespace 35" "\<not> is_whitespace 46" "newline \<noteq> 35" "newline \<noteq> 46"
  by (simp_all add: is_whitespace_def newline_def)

lemma strip_hash_cases:
  "(case strip_prefix s (lit ''#'') of Some r \<Rightarrow> r | None \<Rightarrow> s) =
     (case s of c # r \<Rightarrow> if c = chr CHR ''#'' then r else s | [] \<Rightarrow> [])"
  by (cases s) (auto simp: strip_prefix_def starts_with_def)

text \<open>
  A line goes to the host's dot grammar exactly when, trimmed, it is one dot command with
  an optional hash sign in front.
\<close>

lemma is_dot_command_line_iff:
  "is_dot_command_line source \<longleftrightarrow>
     (\<exists>p. dot_command p \<and> (trim source = p \<or> trim source = chr CHR ''#'' # p))"
proof -
  have "is_dot_command_line source \<longleftrightarrow>
      newline \<notin> set (trim source) \<and>
      dot_command (case trim source of c # r \<Rightarrow> if c = chr CHR ''#'' then r else trim source | [] \<Rightarrow> [])"
    unfolding is_dot_command_line_def Let_def strip_hash_cases dot_command_def
    by (auto split: list.splits if_splits)
  also have "\<dots> \<longleftrightarrow> (\<exists>p. dot_command p \<and> (trim source = p \<or> trim source = chr CHR ''#'' # p))"
    by (cases "trim source") (auto simp: dot_command_def)
  finally show ?thesis .
qed

lemma eval_dot_line_command:
  assumes "dot_command p" and "trim source = p \<or> trim source = chr CHR ''#'' # p"
  shows "eval_dot_line eval_dot source = eval_dot p"
  using assms unfolding eval_dot_line_def Let_def strip_hash_cases
  by (auto simp: dot_command_def)

text \<open>
  Routing: a dot command, with or without the hash sign and whatever white space surrounds
  it, reaches the host grammar as the bare command; any other line reaches the evaluator
  unchanged.
\<close>

lemma eval_line_routes:
  "eval_line eval_dot eval_source source =
     (if \<exists>p. dot_command p \<and> (trim source = p \<or> trim source = chr CHR ''#'' # p)
      then eval_dot (if hd (trim source) = chr CHR ''#'' then tl (trim source) else trim source)
      else eval_source source)"
proof (cases "is_dot_command_line source")
  case True
  then obtain p where p: "dot_command p" "trim source = p \<or> trim source = chr CHR ''#'' # p"
    by (auto simp: is_dot_command_line_iff)
  from p(1) have "p \<noteq> []" "hd p \<noteq> chr CHR ''#''" by (auto simp: dot_command_def)
  with p True show ?thesis
    unfolding eval_line_def eval_dot_line_command [OF p] by auto
next
  case False
  then have "\<not> (\<exists>p. dot_command p \<and> (trim source = p \<or> trim source = chr CHR ''#'' # p))"
    by (simp add: is_dot_command_line_iff)
  with False show ?thesis
    unfolding eval_line_def by (simp only: if_False)
qed

text \<open>Source in parentheses is never taken for a dot command.\<close>

lemma scheme_source_not_dot:
  "trim source = chr CHR ''('' # rest \<Longrightarrow> \<not> is_dot_command_line source"
  by (auto simp: is_dot_command_line_iff dot_command_def)

lemma is_dot_command_line_trim [simp]: "is_dot_command_line (trim source) = is_dot_command_line source"
  by (simp add: is_dot_command_line_def)

lemma eval_dot_line_trim [simp]: "eval_dot_line eval_dot (trim source) = eval_dot_line eval_dot source"
  by (simp add: eval_dot_line_def)

section \<open>Script files\<close>

definition strip_shebang :: "rstr \<Rightarrow> rstr" where
  "strip_shebang source =
     (if starts_with source (lit ''#!'') then
        (case find_char source newline of
           Some pos \<Rightarrow> drop (pos + 1) source
         | None \<Rightarrow> [])
      else source)"

text \<open>What running a script leaves behind: its result, the error lines printed, the displayed
  texts and the evaluator's new state.\<close>

record ('w, 'l) run_report =
  run_result :: "(rstr, unit) result"
  run_stderr :: "rstr list"
  run_displayed :: "rstr list"
  run_state :: 'w

definition run_file ::
  "(rstr \<Rightarrow> (rstr, rstr) result) \<Rightarrow> (rstr \<Rightarrow> ('w, 'l) evaluation) \<Rightarrow> (scheme_err \<Rightarrow> rstr) \<Rightarrow>
     rstr \<Rightarrow> 'w \<Rightarrow> ('w, 'l) run_report" where
  "run_file read_to_string eval_source show_err path w =
     (case read_to_string path of
        Err e \<Rightarrow>
          \<lparr>run_result = Err (lit ''cannot read script: '' @ path), run_stderr = [],
           run_displayed = [], run_state = w\<rparr>
      | Ok raw \<Rightarrow>
          (case eval_source (strip_shebang raw) w of
             (texts, Ok _, w') \<Rightarrow>
               \<lparr>run_result = Ok (), run_stderr = [], run_displayed = texts, run_state = w'\<rparr>
           | (texts, Err e, w') \<Rightarrow>
               \<lparr>run_result = Err (show_err e), run_stderr = [lit ''error: '' @ show_err e],
                run_displayed = texts, run_state = w'\<rparr>))"

text \<open>
  Exactly one leading shebang line is removed, up to and including its newline, and
  everything after it is kept as it is; a source without one is not touched.
\<close>

lemma strip_shebang_spec:
  "(newline \<notin> set l \<longrightarrow> strip_shebang (lit ''#!'' @ l @ newline # rest) = rest) \<and>
   (newline \<notin> set l \<longrightarrow> strip_shebang (lit ''#!'' @ l) = []) \<and>
   (\<not> starts_with source (lit ''#!'') \<longrightarrow> strip_shebang source = source)"
proof (intro conjI impI)
  assume l: "newline \<notin> set l"
  then have "find_char ((lit ''#!'' @ l) @ newline # rest) newline = Some (length (lit ''#!'' @ l))"
    by (intro find_char_append) (simp add: newline_def)
  then show "strip_shebang (lit ''#!'' @ l @ newline # rest) = rest"
    by (simp add: strip_shebang_def starts_with_def)
  from l have "find_char (lit ''#!'' @ l) newline = None"
    by (simp add: find_char_None newline_def)
  then show "strip_shebang (lit ''#!'' @ l) = []"
    unfolding strip_shebang_def by (simp only: option.case starts_with_append if_True)
next
  assume "\<not> starts_with source (lit ''#!'')"
  then show "strip_shebang source = source" by (simp add: strip_shebang_def)
qed

text \<open>The source that is evaluated is always a suffix of the file.\<close>

lemma strip_shebang_suffix: "\<exists>pre. source = pre @ strip_shebang source"
  unfolding strip_shebang_def by (auto split: option.splits) (metis append_take_drop_id)

lemma run_file_ok_iff:
  "run_result (run_file rd ev show_err path w) = Ok () \<longleftrightarrow>
     (\<exists>raw texts v w'. rd path = Ok raw \<and> ev (strip_shebang raw) w = (texts, Ok v, w'))"
  unfolding run_file_def by (auto split: sum.splits prod.splits)

end
