(* ===== verification/Zs_Ipc.thy ===== *)
theory Zs_Ipc
  imports Zs_Value
begin

text \<open>
  The protocol between frontend and daemon (\<open>src/src/ipc.rs\<close>): the messages, where the socket
  lives, and the length-prefixed framing.  CBOR encoding and decoding of a message is serde and
  ciborium, which are parameters; the framing around it is modelled byte by byte on a stream with
  the data that has arrived, how the stream ends, and how many more bytes the peer accepts.
\<close>

unbundle bit_operations_syntax

section \<open>Messages\<close>

datatype request =
    Hello rstr
  | Eval u64 rstr bool
  | Ping
  | Stop
  | Reset
  | DumpEnv

datatype response =
    HelloAck rstr rstr
  | Display u64 rstr
  | EvalResult u64 outcome
  | Pong
  | Stopping
  | ResetDone
  | EnvDump rstr

section \<open>Socket endpoint\<close>

type_synonym path = rstr

definition path_join :: "path \<Rightarrow> rstr \<Rightarrow> path" where
  "path_join p c = (if p = [] \<or> ends_with_char p (chr CHR ''/'') then p @ c else p @ lit ''/'' @ c)"

record base_dirs =
  runtime_dir :: "path option"
  data_dir :: path

datatype fs_effect = CreateDirAll path | SetMode path nat

datatype platform = Unix | Windows

text \<open>Mode 448 is octal 700: the directory is private to the user.\<close>

definition socket_path ::
  "base_dirs option \<Rightarrow> (path \<Rightarrow> (rstr, unit) result) \<Rightarrow> (rstr, path) result \<times> fs_effect list" where
  "socket_path dirs create_dir_all =
     (case dirs of
        None \<Rightarrow> (Err (lit ''cannot resolve home dir''), [])
      | Some base \<Rightarrow>
          (case runtime_dir base of
             Some runtime \<Rightarrow> (Ok (path_join runtime (lit ''zscheme.sock'')), [])
           | None \<Rightarrow>
               (let dir = path_join (data_dir base) (lit ''ma'') in
                case create_dir_all dir of
                  Err e \<Rightarrow> (Err (lit ''cannot create '' @ dir), [])
                | Ok _ \<Rightarrow> (Ok (path_join dir (lit ''zscheme.sock'')), [CreateDirAll dir, SetMode dir 448]))))"

definition windows_daemon_port :: nat where
  "windows_daemon_port = 29787"

definition socket_addr :: "rstr \<times> nat" where
  "socket_addr = (lit ''127.0.0.1'', windows_daemon_port)"

definition show_addr :: "rstr \<times> nat \<Rightarrow> rstr" where
  "show_addr a = fst a @ lit '':'' @ nat_digits (snd a)"

definition socket_endpoint :: "platform \<Rightarrow> (rstr, path) result \<Rightarrow> (rstr, rstr) result" where
  "socket_endpoint os sock_path =
     (case os of Unix \<Rightarrow> sock_path | Windows \<Rightarrow> Ok (show_addr socket_addr))"

text \<open>The address a platform's connect and bind calls are given.\<close>

datatype endpoint = UnixPath path | TcpAddr "rstr \<times> nat"

definition connect_socket ::
  "platform \<Rightarrow> (rstr, path) result \<Rightarrow> (endpoint \<Rightarrow> (rstr, 'c) result) \<Rightarrow> (rstr, 'c) result" where
  "connect_socket os sock_path os_connect =
     (case os of
        Unix \<Rightarrow> and_then sock_path
          (\<lambda>p. map_err (\<lambda>_. lit ''cannot connect to '' @ p) (os_connect (UnixPath p)))
      | Windows \<Rightarrow>
          map_err (\<lambda>_. lit ''cannot connect to '' @ show_addr socket_addr) (os_connect (TcpAddr socket_addr)))"

definition bind_socket ::
  "platform \<Rightarrow> (rstr, path) result \<Rightarrow> (endpoint \<Rightarrow> (rstr, 'b) result) \<Rightarrow> (rstr, 'b) result" where
  "bind_socket os sock_path os_bind =
     (case os of
        Unix \<Rightarrow> and_then sock_path
          (\<lambda>p. map_err (\<lambda>_. lit ''cannot bind '' @ p) (os_bind (UnixPath p)))
      | Windows \<Rightarrow>
          map_err (\<lambda>_. lit ''cannot bind '' @ show_addr socket_addr) (os_bind (TcpAddr socket_addr)))"

definition daemon_log_path ::
  "base_dirs option \<Rightarrow> (path \<Rightarrow> (rstr, unit) result) \<Rightarrow> (rstr, path) result \<times> fs_effect list" where
  "daemon_log_path dirs create_dir_all =
     (case dirs of
        None \<Rightarrow> (Err (lit ''cannot resolve home dir''), [])
      | Some base \<Rightarrow>
          (let dir = path_join (data_dir base) (lit ''ma'') in
           case create_dir_all dir of
             Err e \<Rightarrow> (Err (lit ''cannot create '' @ dir), [])
           | Ok _ \<Rightarrow> (Ok (path_join dir (lit ''zscheme-daemon.log'')), [CreateDirAll dir])))"

section \<open>Streams\<close>

text \<open>
  One end of a connection.  \<open>incoming\<close> is what has arrived and was not read; \<open>ending\<close> says what
  follows it: more may come, the peer closed, or reading fails.  \<open>room\<close> is how many more bytes the
  peer takes before writing fails, \<open>None\<close> for no limit.
\<close>

datatype stream_end = StillOpen | Closed | ReadFails rstr

record ipc_stream =
  incoming :: bytes
  ending :: stream_end
  outgoing :: bytes
  room :: "nat option"

datatype ipc_error =
    CborEncode rstr
  | FrameTooLong
  | IoError rstr
  | UnexpectedEof
  | FrameTooLarge u32
  | CborDecode rstr

datatype read_exact_outcome = ExactPending | ExactGot bytes ipc_stream | ExactEof | ExactIo rstr

definition read_exact :: "nat \<Rightarrow> ipc_stream \<Rightarrow> read_exact_outcome" where
  "read_exact n s =
     (if n \<le> length (incoming s)
      then ExactGot (take n (incoming s)) (s\<lparr>incoming := drop n (incoming s)\<rparr>)
      else (case ending s of
              StillOpen \<Rightarrow> ExactPending
            | Closed \<Rightarrow> ExactEof
            | ReadFails e \<Rightarrow> ExactIo e))"

definition write_all :: "bytes \<Rightarrow> ipc_stream \<Rightarrow> ipc_stream \<times> (ipc_error, unit) result" where
  "write_all bs s =
     (case room s of
        None \<Rightarrow> (s\<lparr>outgoing := outgoing s @ bs\<rparr>, Ok ())
      | Some n \<Rightarrow>
          if length bs \<le> n
          then (s\<lparr>outgoing := outgoing s @ bs, room := Some (n - length bs)\<rparr>, Ok ())
          else (s\<lparr>outgoing := outgoing s @ take n bs, room := Some 0\<rparr>, Err (IoError (lit ''write''))))"

section \<open>Framing\<close>

definition max_frame_len :: u32 where
  "max_frame_len = 16 * 1024 * 1024"

definition to_be_bytes :: "u32 \<Rightarrow> bytes" where
  "to_be_bytes w = [ucast (drop_bit 24 w), ucast (drop_bit 16 w), ucast (drop_bit 8 w), ucast w]"

definition from_be_bytes :: "bytes \<Rightarrow> u32" where
  "from_be_bytes bs = foldl (\<lambda>w b. push_bit 8 w OR ucast b) 0 bs"

definition write_frame ::
  "('m \<Rightarrow> (rstr, bytes) result) \<Rightarrow> 'm \<Rightarrow> ipc_stream \<Rightarrow> ipc_stream \<times> (ipc_error, unit) result" where
  "write_frame into_writer msg s =
     (case into_writer msg of
        Err e \<Rightarrow> (s, Err (CborEncode e))
      | Ok buf \<Rightarrow>
          if length buf < 2 ^ 32 then
            (case write_all (to_be_bytes (of_nat (length buf))) s of
               (s1, Err e) \<Rightarrow> (s1, Err e)
             | (s1, Ok _) \<Rightarrow> write_all buf s1)
          else (s, Err FrameTooLong))"

text \<open>
  What awaiting \<open>read_frame\<close> gives: it may wait for more data; \<open>FrameNone\<close> is \<open>Ok(None)\<close>.
\<close>

datatype 'm read_outcome =
    FramePending
  | FrameGot 'm ipc_stream
  | FrameNone
  | FrameErr ipc_error

definition read_frame :: "(bytes \<Rightarrow> (rstr, 'm) result) \<Rightarrow> ipc_stream \<Rightarrow> 'm read_outcome" where
  "read_frame from_reader s =
     (case read_exact 4 s of
        ExactPending \<Rightarrow> FramePending
      | ExactEof \<Rightarrow> FrameNone
      | ExactIo e \<Rightarrow> FrameErr (IoError e)
      | ExactGot len_bytes s1 \<Rightarrow>
          (let len = from_be_bytes len_bytes in
           if max_frame_len < len then FrameErr (FrameTooLarge len)
           else
             (case read_exact (unat len) s1 of
                ExactPending \<Rightarrow> FramePending
              | ExactEof \<Rightarrow> FrameErr UnexpectedEof
              | ExactIo e \<Rightarrow> FrameErr (IoError e)
              | ExactGot buf s2 \<Rightarrow>
                  (case from_reader buf of
                     Err e \<Rightarrow> FrameErr (CborDecode e)
                   | Ok msg \<Rightarrow> FrameGot msg s2))))"

section \<open>Facts about streams and lengths\<close>


lemma length_to_be_bytes [simp]: "length (to_be_bytes w) = 4"
  by (simp add: to_be_bytes_def)

lemma from_to_be_bytes [simp]: "from_be_bytes (to_be_bytes w) = w"
proof (rule bit_word_eqI)
  fix n
  assume n: "n < LENGTH(32)"
  consider "n < 8" | "8 \<le> n" "n < 16" | "16 \<le> n" "n < 24" | "24 \<le> n"
    by linarith
  then show "bit (from_be_bytes (to_be_bytes w)) n = bit w n"
    using n by cases (auto simp: from_be_bytes_def to_be_bytes_def bit_simps)
qed


text \<open>The bytes one message takes on the wire, and when the framing carries it.\<close>

definition frame_bytes :: "('m \<Rightarrow> (rstr, bytes) result) \<Rightarrow> 'm \<Rightarrow> bytes" where
  "frame_bytes into_writer m =
     (case into_writer m of
        Err _ \<Rightarrow> []
      | Ok buf \<Rightarrow> to_be_bytes (of_nat (length buf)) @ buf)"

definition frame_ok ::
  "('m \<Rightarrow> (rstr, bytes) result) \<Rightarrow> (bytes \<Rightarrow> (rstr, 'm) result) \<Rightarrow> 'm \<Rightarrow> bool" where
  "frame_ok into_writer from_reader m =
     (case into_writer m of
        Err _ \<Rightarrow> False
      | Ok buf \<Rightarrow> length buf \<le> unat max_frame_len \<and> from_reader buf = Ok m)"

lemma unat_max_frame_len [simp]: "unat max_frame_len = 16777216"
  by (simp add: max_frame_len_def)

lemma unat_of_length [simp]: "n < 2 ^ 32 \<Longrightarrow> unat (of_nat n :: u32) = n"
  by (simp add: unat_of_nat)

lemma read_exact_append:
  "length p = n \<Longrightarrow> incoming s = p @ q \<Longrightarrow> read_exact n s = ExactGot p (s\<lparr>incoming := q\<rparr>)"
  by (auto simp: read_exact_def)

lemma read_exact_Got_iff:
  "read_exact n s = ExactGot p s' \<longleftrightarrow>
     n \<le> length (incoming s) \<and> p = take n (incoming s) \<and> s' = s\<lparr>incoming := drop n (incoming s)\<rparr>"
  by (auto simp: read_exact_def split: stream_end.splits)

lemma read_exact_short:
  "length (incoming s) < n \<Longrightarrow>
     read_exact n s = (case ending s of StillOpen \<Rightarrow> ExactPending | Closed \<Rightarrow> ExactEof | ReadFails e \<Rightarrow> ExactIo e)"
  by (simp add: read_exact_def)

lemma write_all_unlimited: "room s = None \<Longrightarrow> write_all bs s = (s\<lparr>outgoing := outgoing s @ bs\<rparr>, Ok ())"
  by (simp add: write_all_def)

lemma write_frame_unlimited:
  assumes "into_writer m = Ok buf" "length buf < 2 ^ 32" "room s = None"
  shows "write_frame into_writer m s = (s\<lparr>outgoing := outgoing s @ frame_bytes into_writer m\<rparr>, Ok ())"
  using assms by (simp add: write_frame_def write_all_unlimited frame_bytes_def)

lemma frame_ok_E:
  assumes "frame_ok into_writer from_reader m"
  obtains buf where "into_writer m = Ok buf" "length buf \<le> 16777216" "from_reader buf = Ok m"
  using assms by (auto simp: frame_ok_def split: sum.splits)

lemma write_frame_ok:
  "frame_ok into_writer from_reader m \<Longrightarrow> room s = None \<Longrightarrow>
     write_frame into_writer m s = (s\<lparr>outgoing := outgoing s @ frame_bytes into_writer m\<rparr>, Ok ())"
  by (auto elim!: frame_ok_E intro!: write_frame_unlimited)

lemma read_frame_header:
  assumes "incoming s = to_be_bytes len @ rest"
  shows "read_frame from_reader s =
     (if max_frame_len < len then FrameErr (FrameTooLarge len)
      else (case read_exact (unat len) (s\<lparr>incoming := rest\<rparr>) of
              ExactPending \<Rightarrow> FramePending
            | ExactEof \<Rightarrow> FrameErr UnexpectedEof
            | ExactIo e \<Rightarrow> FrameErr (IoError e)
            | ExactGot buf s2 \<Rightarrow>
                (case from_reader buf of Err e \<Rightarrow> FrameErr (CborDecode e) | Ok msg \<Rightarrow> FrameGot msg s2)))"
proof -
  have "read_exact 4 s = ExactGot (to_be_bytes len) (s\<lparr>incoming := rest\<rparr>)"
    using assms by (intro read_exact_append) simp_all
  then show ?thesis by (simp add: read_frame_def)
qed

text \<open>A frame the writer produced is read back, and nothing after it is touched.\<close>

lemma read_frame_written:
  assumes "frame_ok into_writer from_reader m"
    and "incoming s = frame_bytes into_writer m @ rest"
  shows "read_frame from_reader s = FrameGot m (s\<lparr>incoming := rest\<rparr>)"
proof -
  obtain buf where buf: "into_writer m = Ok buf" "length buf \<le> 16777216" "from_reader buf = Ok m"
    using assms(1) by (rule frame_ok_E)
  define len where "len = (of_nat (length buf) :: u32)"
  have len: "unat len = length buf" using buf(2) by (simp add: len_def)
  then have "\<not> max_frame_len < len" using buf(2) by (simp add: word_less_nat_alt)
  moreover have "incoming s = to_be_bytes len @ buf @ rest"
    using assms(2) buf(1) by (simp add: frame_bytes_def len_def)
  ultimately show ?thesis
    using buf(3) by (simp add: read_frame_header read_exact_append [of buf _ _ rest] len)
qed

lemma read_frame_Got_iff:
  "read_frame from_reader s = FrameGot m s' \<longleftrightarrow>
     4 \<le> length (incoming s) \<and>
     (let len = from_be_bytes (take 4 (incoming s)) in
      len \<le> max_frame_len \<and> 4 + unat len \<le> length (incoming s) \<and>
      from_reader (take (unat len) (drop 4 (incoming s))) = Ok m \<and>
      s' = s\<lparr>incoming := drop (4 + unat len) (incoming s)\<rparr>)"
  unfolding read_frame_def read_exact_def Let_def
  by (auto split: stream_end.splits sum.splits simp: not_less add.commute)

lemma read_frame_shrinks:
  "read_frame from_reader s = FrameGot m s' \<Longrightarrow> length (incoming s') < length (incoming s)"
  by (auto simp: read_frame_Got_iff Let_def)

lemma read_frame_empty:
  "incoming s = [] \<Longrightarrow> read_frame from_reader s =
     (case ending s of StillOpen \<Rightarrow> FramePending | Closed \<Rightarrow> FrameNone | ReadFails e \<Rightarrow> FrameErr (IoError e))"
  by (simp add: read_frame_def read_exact_short split: stream_end.splits)

text \<open>
  Reading does not depend on how the bytes arrived: a frame that can be read, and an error that a
  header or a body gives, stay what they are when more bytes come.
\<close>

lemma read_frame_extend:
  "read_frame from_reader s = FrameGot m s' \<Longrightarrow>
     read_frame from_reader (s\<lparr>incoming := incoming s @ bs, ending := e\<rparr>) =
       FrameGot m (s'\<lparr>incoming := incoming s' @ bs, ending := e\<rparr>)"
  by (auto simp: read_frame_Got_iff Let_def)

lemma read_frame_Err_extend:
  assumes "read_frame from_reader s = FrameErr e" and "ending s = StillOpen"
  shows "read_frame from_reader (s\<lparr>incoming := incoming s @ bs, ending := x\<rparr>) = FrameErr e"
  using assms
  by (auto simp: read_frame_def read_exact_def Let_def split: if_splits sum.splits)

text \<open>
  The reader reports the end of the stream exactly when the peer closed with fewer than
  four unread bytes: a length prefix cut short is not told apart from a clean close.
\<close>

lemma read_frame_none_iff:
  "read_frame from_reader s = FrameNone \<longleftrightarrow> ending s = Closed \<and> length (incoming s) < 4"
proof (cases "length (incoming s) < 4")
  case True
  then show ?thesis by (auto simp: read_frame_def read_exact_short split: stream_end.splits)
next
  case False
  then show ?thesis
    unfolding read_frame_def read_exact_def Let_def
    by (auto split: stream_end.splits sum.splits)
qed

section \<open>The framed link, as its clients see it\<close>

text \<open>
  What the daemon, the frontend and the takeover code rely on: a frame that fits is delivered
  whole and alone, and every delivery consumes data.
\<close>

locale framed_link =
  fixes fits :: "'m \<Rightarrow> bool"
    and frame :: "'m \<Rightarrow> bytes"
    and recv :: "ipc_stream \<Rightarrow> 'm read_outcome"
  assumes recv_frame: "fits m \<Longrightarrow> incoming s = frame m @ rest \<Longrightarrow> recv s = FrameGot m (s\<lparr>incoming := rest\<rparr>)"
    and recv_shrinks: "recv s = FrameGot m s' \<Longrightarrow> length (incoming s') < length (incoming s)"
begin

lemma frame_nonempty: "fits m \<Longrightarrow> frame m \<noteq> []"
proof
  assume fits: "fits m" and empty: "frame m = []"
  let ?s = "\<lparr>incoming = [], ending = Closed, outgoing = [], room = None\<rparr>"
  have "recv ?s = FrameGot m (?s\<lparr>incoming := []\<rparr>)"
    by (rule recv_frame [OF fits]) (simp add: empty)
  from recv_shrinks [OF this] show False by simp
qed

lemma recv_frames:
  "list_all fits (m # ms) \<Longrightarrow> incoming s = concat (map frame (m # ms)) @ rest \<Longrightarrow>
     recv s = FrameGot m (s\<lparr>incoming := concat (map frame ms) @ rest\<rparr>)"
  by (simp add: recv_frame)

text \<open>Two sequences of frames with the same bytes are the same sequence.\<close>

lemma frames_unique:
  "list_all fits ms \<Longrightarrow> list_all fits ns \<Longrightarrow>
     concat (map frame ms) = concat (map frame ns) \<Longrightarrow> ms = ns"
proof (induction ms arbitrary: ns)
  case Nil
  then show ?case using frame_nonempty by (cases ns) auto
next
  case (Cons m ms)
  let ?s = "\<lparr>incoming = concat (map frame (m # ms)), ending = Closed, outgoing = [], room = None\<rparr>"
  from Cons.prems frame_nonempty obtain n ns' where ns: "ns = n # ns'"
    by (cases ns) auto
  have "recv ?s = FrameGot m (?s\<lparr>incoming := concat (map frame ms)\<rparr>)"
    using recv_frames [of m ms ?s "[]"] Cons.prems(1) by simp
  moreover have "recv ?s = FrameGot n (?s\<lparr>incoming := concat (map frame ns')\<rparr>)"
    using recv_frames [of n ns' ?s "[]"] Cons.prems by (simp add: ns)
  ultimately have "m = n" "concat (map frame ms) = concat (map frame ns')"
    by auto
  with Cons show ?case by (simp add: ns)
qed

end

interpretation ipc_link: framed_link "frame_ok into_writer from_reader"
  "frame_bytes into_writer" "read_frame from_reader"
  for into_writer :: "'m \<Rightarrow> (rstr, bytes) result" and from_reader :: "bytes \<Rightarrow> (rstr, 'm) result"
  by unfold_locales (auto intro: read_frame_written read_frame_shrinks)

text \<open>What is read from a prefix of a sequence of frames is the first of them.\<close>

lemma read_frame_of_prefix:
  assumes "list_all (frame_ok into_writer from_reader) ms"
    and "prefix (incoming s) (concat (map (frame_bytes into_writer) ms))"
    and "read_frame from_reader s = FrameGot m s'"
  shows "\<exists>ms'. ms = m # ms' \<and> incoming s = frame_bytes into_writer m @ incoming s' \<and>
    s' = s\<lparr>incoming := incoming s'\<rparr>"
proof -
  obtain bs where bs: "concat (map (frame_bytes into_writer) ms) = incoming s @ bs"
    using assms(2) by (rule prefixE)
  have more: "read_frame from_reader (s\<lparr>incoming := incoming s @ bs, ending := ending s\<rparr>) =
      FrameGot m (s'\<lparr>incoming := incoming s' @ bs, ending := ending s\<rparr>)"
    by (rule read_frame_extend [OF assms(3)])
  have s': "s' = s\<lparr>incoming := incoming s'\<rparr>"
    using assms(3) by (auto simp: read_frame_Got_iff Let_def)
  show ?thesis
  proof (cases ms)
    case Nil
    with bs have "incoming s = []" by simp
    with assms(3) show ?thesis by (simp add: read_frame_empty split: stream_end.splits)
  next
    case (Cons n ns)
    have "read_frame from_reader (s\<lparr>incoming := incoming s @ bs, ending := ending s\<rparr>) =
        FrameGot n (s\<lparr>incoming := concat (map (frame_bytes into_writer) ns), ending := ending s\<rparr>)"
      using ipc_link.recv_frames [of into_writer from_reader n ns
          "s\<lparr>incoming := incoming s @ bs, ending := ending s\<rparr>" "[]"] assms(1) bs Cons
      by simp
    with more have "n = m" and rest: "s'\<lparr>incoming := incoming s' @ bs, ending := ending s\<rparr> =
        s\<lparr>incoming := concat (map (frame_bytes into_writer) ns), ending := ending s\<rparr>"
      by simp_all
    from arg_cong [where f = incoming, OF rest]
    have "incoming s' @ bs = concat (map (frame_bytes into_writer) ns)" by simp
    moreover have "incoming s @ bs = frame_bytes into_writer n @ concat (map (frame_bytes into_writer) ns)"
      using bs Cons by simp
    ultimately have "incoming s = frame_bytes into_writer m @ incoming s'"
      using \<open>n = m\<close> by (metis append.assoc append_same_eq)
    with Cons s' \<open>n = m\<close> show ?thesis by blast
  qed
qed

lemma read_frame_prefix_no_error:
  assumes "list_all (frame_ok into_writer from_reader) ms"
    and "prefix (incoming s) (concat (map (frame_bytes into_writer) ms))" and "ending s = StillOpen"
  shows "read_frame from_reader s \<noteq> FrameErr e"
proof
  assume err: "read_frame from_reader s = FrameErr e"
  obtain bs where bs: "concat (map (frame_bytes into_writer) ms) = incoming s @ bs"
    using assms(2) by (rule prefixE)
  have err': "read_frame from_reader (s\<lparr>incoming := incoming s @ bs, ending := StillOpen\<rparr>) = FrameErr e"
    by (rule read_frame_Err_extend [OF err assms(3)])
  show False
  proof (cases ms)
    case Nil
    with bs have "incoming s = []" by simp
    with err assms(3) show False by (simp add: read_frame_empty)
  next
    case (Cons n ns)
    with err' ipc_link.recv_frames [of into_writer from_reader n ns
        "s\<lparr>incoming := incoming s @ bs, ending := StillOpen\<rparr>" "[]"] assms(1) bs
    show False by simp
  qed
qed

section \<open>Correctness of the framing\<close>

text \<open>
  C17.  A message whose encoding is at most 16 MiB survives the wire: the writer appends one
  frame, and a reader that has the frame, with whatever follows it, gets the message back and
  leaves the rest unread.
\<close>

theorem frame_round_trip:
  assumes "into_writer m = Ok buf" and "from_reader buf = Ok m"
    and "length buf \<le> 16 * 1024 * 1024" and "room s = None"
  shows "\<exists>frame. write_frame into_writer m s = (s\<lparr>outgoing := outgoing s @ frame\<rparr>, Ok ()) \<and>
    (\<forall>peer rest. incoming peer = frame @ rest \<longrightarrow>
       read_frame from_reader peer = FrameGot m (peer\<lparr>incoming := rest\<rparr>))"
proof -
  have ok: "frame_ok into_writer from_reader m"
    using assms by (simp add: frame_ok_def)
  show ?thesis
    using write_frame_ok [where s = s, OF ok assms(4)] read_frame_written [OF ok] by blast
qed

theorem frame_round_trip_witness:
  "\<exists>frame. write_frame (\<lambda>r. Ok (if r = Ping then [4] else [])) Ping
        \<lparr>incoming = [], ending = Closed, outgoing = [9], room = None\<rparr>
      = (\<lparr>incoming = [], ending = Closed, outgoing = [9] @ frame, room = None\<rparr>, Ok ())"
proof -
  let ?s = "\<lparr>incoming = [], ending = Closed, outgoing = [9], room = None\<rparr>"
  have "\<exists>frame. write_frame (\<lambda>r. Ok (if r = Ping then [4] else [])) Ping ?s
        = (?s\<lparr>outgoing := outgoing ?s @ frame\<rparr>, Ok ()) \<and>
      (\<forall>peer rest. incoming peer = frame @ rest \<longrightarrow>
         read_frame (\<lambda>b. if b = [4] then Ok Ping else Err []) peer = FrameGot Ping (peer\<lparr>incoming := rest\<rparr>))"
    by (rule frame_round_trip [where buf = "[4]"]) simp_all
  then show ?thesis by auto
qed

text \<open>
  The two ends do not agree on the largest frame.  The writer only refuses an encoding whose
  length does not fit in 32 bits; anything between 16 MiB and that is sent in full, and the
  reader refuses it on its length prefix.
\<close>

lemma oversized_frame_sent_but_refused:
  assumes "into_writer m = Ok buf" and "16 * 1024 * 1024 < length buf" and "length buf < 2 ^ 32"
    and "room s = None"
  shows "\<exists>frame. write_frame into_writer m s = (s\<lparr>outgoing := outgoing s @ frame\<rparr>, Ok ()) \<and>
    (\<forall>peer rest. incoming peer = frame @ rest \<longrightarrow>
       read_frame from_reader peer = FrameErr (FrameTooLarge (of_nat (length buf))))"
proof -
  define len where "len = (of_nat (length buf) :: u32)"
  have "max_frame_len < len" using assms(2,3) by (simp add: word_less_nat_alt len_def)
  then have "read_frame from_reader peer = FrameErr (FrameTooLarge len)"
    if "incoming peer = frame_bytes into_writer m @ rest" for peer rest
    using that assms(1) by (simp add: frame_bytes_def read_frame_header [of _ _ "buf @ rest"] len_def)
  then show ?thesis
    using write_frame_unlimited [where into_writer = into_writer, OF assms(1,3,4)] len_def by blast
qed

text \<open>
  A reader never buffers more than 16 MiB for one frame, and consumes exactly the prefix
  and the body it announces.
\<close>

lemma read_frame_bounded:
  "read_frame from_reader s = FrameGot m s' \<Longrightarrow>
     \<exists>n \<le> 16 * 1024 * 1024. incoming s = take (4 + n) (incoming s) @ incoming s' \<and>
       length (incoming s) = 4 + n + length (incoming s') \<and> outgoing s' = outgoing s"
proof -
  assume got: "read_frame from_reader s = FrameGot m s'"
  define len where "len = from_be_bytes (take 4 (incoming s))"
  from got have "len \<le> max_frame_len" "4 + unat len \<le> length (incoming s)"
    and s': "s' = s\<lparr>incoming := drop (4 + unat len) (incoming s)\<rparr>"
    by (auto simp: read_frame_Got_iff Let_def len_def)
  then show ?thesis
    by (intro exI [of _ "unat len"]) (simp add: word_le_nat_alt)
qed

text \<open>
  Whatever happens while a frame is written, the bytes on the wire are a prefix of that
  frame, all of it when the write succeeds.
\<close>

lemma write_frame_prefix:
  "write_frame into_writer m s = (s', r) \<Longrightarrow>
     \<exists>p. outgoing s' = outgoing s @ p \<and> prefix p (frame_bytes into_writer m) \<and>
       (r = Ok () \<longrightarrow> p = frame_bytes into_writer m)"
proof -
  assume w: "write_frame into_writer m s = (s', r)"
  have all: "\<exists>p. outgoing t' = outgoing t @ p \<and> prefix p bs \<and> (r' = Ok () \<longrightarrow> p = bs)"
    if "write_all bs t = (t', r')" for bs t t' r'
    using that by (auto simp: write_all_def take_is_prefix split: option.splits if_splits)
  show ?thesis
  proof (cases "into_writer m")
    case (Inl e)
    with w show ?thesis by (auto simp: write_frame_def)
  next
    case (Inr buf)
    show ?thesis
    proof (cases "length buf < 2 ^ 32")
      case False
      with w Inr show ?thesis by (auto simp: write_frame_def)
    next
      case True
      obtain s1 r1 where s1: "write_all (to_be_bytes (of_nat (length buf))) s = (s1, r1)"
        by fastforce
      from all [OF this] obtain p1 where p1: "outgoing s1 = outgoing s @ p1"
          "prefix p1 (to_be_bytes (of_nat (length buf)))"
          "r1 = Ok () \<Longrightarrow> p1 = to_be_bytes (of_nat (length buf))" by blast
      show ?thesis
      proof (cases r1)
        case (Inl e)
        with w Inr True s1 have "s' = s1" "r = Err e" by (simp_all add: write_frame_def)
        with p1 Inr show ?thesis by (auto simp: frame_bytes_def)
      next
        case (Inr u)
        with w \<open>into_writer m = Ok buf\<close> True s1 have "write_all buf s1 = (s', r)"
          by (simp add: write_frame_def)
        from all [OF this] obtain p2 where "outgoing s' = outgoing s1 @ p2" "prefix p2 buf"
            "r = Ok () \<Longrightarrow> p2 = buf" by blast
        with p1 Inr \<open>into_writer m = Ok buf\<close> show ?thesis
          by (intro exI [of _ "p1 @ p2"]) (simp add: frame_bytes_def)
      qed
    qed
  qed
qed

section \<open>A table codec, for the examples\<close>

definition table_enc :: "('m \<times> bytes) list \<Rightarrow> 'm \<Rightarrow> (rstr, bytes) result" where
  "table_enc tbl m = (case map_of tbl m of Some b \<Rightarrow> Ok b | None \<Rightarrow> Err [])"

definition table_dec :: "('m \<times> bytes) list \<Rightarrow> bytes \<Rightarrow> (rstr, 'm) result" where
  "table_dec tbl b = (case map_of (map (\<lambda>(m, b). (b, m)) tbl) b of Some m \<Rightarrow> Ok m | None \<Rightarrow> Err [])"

section \<open>Waiting for one response\<close>

text \<open>The loop \<open>while let Some(resp) = read_frame(..)? { if matches!(resp, ..) { break } }\<close>.\<close>

datatype 'm until_outcome = UntilFound 'm ipc_stream | UntilNone | UntilErr ipc_error | UntilPending

function read_until ::
  "(bytes \<Rightarrow> (rstr, 'm) result) \<Rightarrow> ('m \<Rightarrow> bool) \<Rightarrow> ipc_stream \<Rightarrow> 'm until_outcome" where
  "read_until from_reader matches s =
     (case read_frame from_reader s of
        FramePending \<Rightarrow> UntilPending
      | FrameNone \<Rightarrow> UntilNone
      | FrameErr e \<Rightarrow> UntilErr e
      | FrameGot m s' \<Rightarrow> if matches m then UntilFound m s' else read_until from_reader matches s')"
  by pat_completeness auto
termination
  by (relation "measure (\<lambda>(dec, matches, s). length (incoming s))") (auto dest: read_frame_shrinks)

declare read_until.simps [simp del]

lemma read_until_skip:
  assumes "list_all (frame_ok into_writer from_reader) ms" and "list_all (\<lambda>m. \<not> matches m) ms"
    and "incoming s = concat (map (frame_bytes into_writer) ms) @ rest"
  shows "read_until from_reader matches s = read_until from_reader matches (s\<lparr>incoming := rest\<rparr>)"
  using assms
proof (induction ms arbitrary: s)
  case Nil
  then have "s\<lparr>incoming := rest\<rparr> = s" by (cases s) simp
  then show ?case by simp
next
  case (Cons m ms)
  have "read_frame from_reader s = FrameGot m (s\<lparr>incoming := concat (map (frame_bytes into_writer) ms) @ rest\<rparr>)"
    using Cons.prems by (intro ipc_link.recv_frames [where into_writer = into_writer]) simp_all
  then have "read_until from_reader matches s =
      read_until from_reader matches (s\<lparr>incoming := concat (map (frame_bytes into_writer) ms) @ rest\<rparr>)"
    using Cons.prems(2) by (subst read_until.simps) simp
  also have "\<dots> = read_until from_reader matches (s\<lparr>incoming := rest\<rparr>)"
    using Cons.prems by (subst Cons.IH) simp_all
  finally show ?case .
qed

lemma read_until_found:
  assumes "list_all (frame_ok into_writer from_reader) (ms @ [m])"
    and "list_all (\<lambda>m. \<not> matches m) ms" and "matches m"
    and "incoming s = concat (map (frame_bytes into_writer) (ms @ [m])) @ rest"
  shows "read_until from_reader matches s = UntilFound m (s\<lparr>incoming := rest\<rparr>)"
proof -
  have "read_until from_reader matches s =
      read_until from_reader matches (s\<lparr>incoming := frame_bytes into_writer m @ rest\<rparr>)"
    using assms by (intro read_until_skip [where ms = ms]) simp_all
  moreover have "read_frame from_reader (s\<lparr>incoming := frame_bytes into_writer m @ rest\<rparr>)
      = FrameGot m (s\<lparr>incoming := rest\<rparr>)"
    using assms(1) by (subst read_frame_written [where into_writer = into_writer and m = m and rest = rest]) simp_all
  ultimately show ?thesis
    using assms(3) by (simp add: read_until.simps)
qed

lemma read_until_closed:
  assumes "list_all (frame_ok into_writer from_reader) ms" and "list_all (\<lambda>m. \<not> matches m) ms"
    and "incoming s = concat (map (frame_bytes into_writer) ms)" and "ending s = Closed"
  shows "read_until from_reader matches s = UntilNone"
proof -
  have "read_until from_reader matches s = read_until from_reader matches (s\<lparr>incoming := []\<rparr>)"
    using assms by (intro read_until_skip [where ms = ms]) simp_all
  then show ?thesis
    using assms(4) by (simp add: read_until.simps read_frame_empty)
qed

end
