(* ===== verification/Zs_Context.thy ===== *)
theory Zs_Context
  imports Zs_Value
begin

text \<open>
  The evaluation context of the command line interpreter, \<open>CliCtx\<close> (\<open>src/src/context.rs\<close>): its
  state, the dot commands on the path registry, display routing, reply registration and the
  polling that routes replies, and the operations that build, sign and send a message.

  The path registry (a trait object), the DID, key and message types of \<open>ma-core\<close>, CBOR encoding
  and the parsers of \<open>ma-zscheme\<close> are not part of the repository.  They are records of functions
  and plain function parameters of the definitions that call them.
\<close>

section \<open>What the context calls\<close>

datatype dot_op = DotGet | DotSet rstr | DotDelete | DotMeta rstr rstr

record 'cfg registry =
  reg_get :: "'cfg \<Rightarrow> rstr \<Rightarrow> rstr option"
  reg_list :: "'cfg \<Rightarrow> rstr \<Rightarrow> (rstr \<times> rstr) list"
  reg_set :: "'cfg \<Rightarrow> rstr \<Rightarrow> rstr \<Rightarrow> 'cfg"
  reg_delete_subtree :: "'cfg \<Rightarrow> rstr \<Rightarrow> 'cfg"
  reg_resolve_target :: "'cfg \<Rightarrow> rstr \<Rightarrow> (rstr, rstr) result"

record ('did, 'key, 'msg, 'ob) ma_core =
  did_try_from :: "rstr \<Rightarrow> (rstr, 'did) result"
  did_with_fragment :: "'did \<Rightarrow> rstr \<Rightarrow> (rstr, 'did) result"
  did_id :: "'did \<Rightarrow> rstr"
  did_validate_url :: "rstr \<Rightarrow> (rstr, unit) result"
  key_from_bytes :: "'did \<Rightarrow> bytes \<Rightarrow> (rstr, 'key) result"
  message_new :: "rstr \<Rightarrow> rstr \<Rightarrow> rstr \<Rightarrow> rstr \<Rightarrow> bytes \<Rightarrow> 'key \<Rightarrow> (rstr, 'msg) result"
  message_id :: "'msg \<Rightarrow> rstr"
  message_reply_to :: "'msg \<Rightarrow> rstr option"
  message_payload :: "'msg \<Rightarrow> bytes"
  message_type_message :: rstr
  content_type_term :: rstr
  inbox_protocol_id :: rstr
  endpoint_outbox :: "rstr \<Rightarrow> rstr \<Rightarrow> (rstr, 'ob) result"
  outbox_send :: "'ob \<Rightarrow> 'msg \<Rightarrow> (rstr, unit) result"

section \<open>State\<close>

text \<open>
  A one-shot reply channel, named by a number: waiting for its reply, holding it, its sender
  dropped unused, or its receiver gone.
\<close>

datatype 'l chan =
    ChanOpen
  | ChanSent "(rstr, 'l scheme_val) result"
  | ChanDropped
  | ChanClosed

text \<open>The closure installed as display sink: it sends to a connection, tagged with a request.\<close>

datatype sink = Sink nat u64

record ('cfg, 'ib, 'l) cli_ctx =
  config :: 'cfg
  our_did :: rstr
  signing_key_bytes :: bytes
  endpoint_open :: bool
  kubo_url :: rstr
  reply_senders :: "rstr \<rightharpoonup> nat"
  chans :: "nat \<Rightarrow> 'l chan"
  inbox :: 'ib
  display_sink :: "sink option"

record ('cfg, 'ib) cli_ctx_init =
  init_config :: 'cfg
  init_our_did :: rstr
  init_signing_key_bytes :: bytes
  init_kubo_url :: rstr
  init_inbox :: 'ib

definition cli_ctx_new :: "('cfg, 'ib) cli_ctx_init \<Rightarrow> ('cfg, 'ib, 'l) cli_ctx" where
  "cli_ctx_new i =
     \<lparr>config = init_config i, our_did = init_our_did i,
      signing_key_bytes = init_signing_key_bytes i, endpoint_open = True,
      kubo_url = init_kubo_url i, reply_senders = Map.empty, chans = (\<lambda>_. ChanClosed),
      inbox = init_inbox i, display_sink = None\<rparr>"

definition cli_ctx_close :: "('cfg, 'ib, 'l) cli_ctx \<Rightarrow> ('cfg, 'ib, 'l) cli_ctx" where
  "cli_ctx_close ctx = ctx\<lparr>endpoint_open := False\<rparr>"

section \<open>Display\<close>

datatype display_event = ToSink nat u64 rstr | ToStdout rstr

definition set_display_sink :: "sink option \<Rightarrow> ('cfg, 'ib, 'l) cli_ctx \<Rightarrow> ('cfg, 'ib, 'l) cli_ctx" where
  "set_display_sink s ctx = ctx\<lparr>display_sink := s\<rparr>"

definition display_output :: "('cfg, 'ib, 'l) cli_ctx \<Rightarrow> rstr \<Rightarrow> display_event" where
  "display_output ctx txt =
     (case display_sink ctx of
        Some (Sink conn rid) \<Rightarrow> ToSink conn rid txt
      | None \<Rightarrow> ToStdout txt)"

section \<open>Dot commands\<close>

definition eval_dot ::
  "(rstr \<Rightarrow> (rstr \<times> dot_op) option) \<Rightarrow> 'cfg registry \<Rightarrow> rstr \<Rightarrow> ('cfg, 'ib, 'l) cli_ctx \<Rightarrow>
     (scheme_err, 'l scheme_val) result \<times> ('cfg, 'ib, 'l) cli_ctx" where
  "eval_dot parse_dot_command reg command ctx =
     (case parse_dot_command command of
        None \<Rightarrow> (Err (MaError (lit ''bad path command: '' @ command)), ctx)
      | Some (path, dot) \<Rightarrow>
          (case dot of
             DotGet \<Rightarrow>
               (case reg_get reg (config ctx) path of
                  Some val \<Rightarrow> (Ok (SStr val), ctx)
                | None \<Rightarrow>
                    (let pairs = reg_list reg (config ctx) path in
                     if pairs = []
                     then (Err (MaError (lit ''no value at .'' @
                             replace_char path (chr CHR ''/'') (lit ''.''))), ctx)
                     else (Ok (SList (map (\<lambda>(k, _). SStr k) pairs)), ctx)))
           | DotSet val \<Rightarrow> (Ok SNil, ctx\<lparr>config := reg_set reg (config ctx) path val\<rparr>)
           | DotDelete \<Rightarrow> (Ok SNil, ctx\<lparr>config := reg_delete_subtree reg (config ctx) path\<rparr>)
           | DotMeta verb args \<Rightarrow> (Ok SNil, ctx)))"

definition resolve_target :: "'cfg registry \<Rightarrow> ('cfg, 'ib, 'l) cli_ctx \<Rightarrow> rstr \<Rightarrow> (rstr, rstr) result" where
  "resolve_target reg ctx raw = reg_resolve_target reg (config ctx) raw"

section \<open>Bytes from the host and from Kubo\<close>

definition random_bytes :: "(nat \<Rightarrow> (rstr, bytes) result) \<Rightarrow> nat \<Rightarrow> (rstr, bytes) result" where
  "random_bytes getrandom_fill len = getrandom_fill len"

definition fetch_bytes ::
  "(rstr \<Rightarrow> rstr \<Rightarrow> (rstr, bytes) result) \<Rightarrow> ('cfg, 'ib, 'l) cli_ctx \<Rightarrow> rstr \<Rightarrow> (rstr, bytes) result" where
  "fetch_bytes cat_bytes ctx path = cat_bytes (kubo_url ctx) path"

definition fetch_path ::
  "(rstr \<Rightarrow> rstr \<Rightarrow> (rstr, bytes) result) \<Rightarrow> (bytes \<Rightarrow> rstr) \<Rightarrow>
     ('cfg, 'ib, 'l) cli_ctx \<Rightarrow> rstr \<Rightarrow> (rstr, rstr) result" where
  "fetch_path cat_bytes utf8_error ctx path =
     and_then (cat_bytes (kubo_url ctx) path)
       (\<lambda>bs. ok_or (utf8_error bs) (from_utf8 bs))"

definition resolve_ipns ::
  "(rstr \<Rightarrow> (rstr, rstr) result) \<Rightarrow> rstr \<Rightarrow> (rstr, rstr) result" where
  "resolve_ipns resolve_ipns_path path = resolve_ipns_path path"

section \<open>Replies\<close>

fun drop_sender :: "'l chan \<Rightarrow> 'l chan" where
  "drop_sender ChanOpen = ChanDropped"
| "drop_sender c = c"

fun chan_send :: "(rstr, 'l scheme_val) result \<Rightarrow> 'l chan \<Rightarrow> 'l chan" where
  "chan_send r ChanOpen = ChanSent r"
| "chan_send r c = c"

text \<open>Inserting under an id that is still pending drops the sender it replaces.\<close>

definition register_reply_sender ::
  "rstr \<Rightarrow> nat \<Rightarrow> ('cfg, 'ib, 'l) cli_ctx \<Rightarrow> ('cfg, 'ib, 'l) cli_ctx" where
  "register_reply_sender mid ch ctx =
     ctx\<lparr>reply_senders := (reply_senders ctx)(mid \<mapsto> ch),
         chans := (case reply_senders ctx mid of
                     None \<Rightarrow> chans ctx
                   | Some old \<Rightarrow> (chans ctx)(old := drop_sender (chans ctx old)))\<rparr>"

text \<open>The body of the polling loop for one drained message.\<close>

definition route_reply ::
  "('did, 'key, 'msg, 'ob) ma_core \<Rightarrow> (bytes \<Rightarrow> (rstr, 'l scheme_val) result) \<Rightarrow> 'msg \<Rightarrow>
     ('cfg, 'ib, 'l) cli_ctx \<Rightarrow> ('cfg, 'ib, 'l) cli_ctx" where
  "route_reply core decode msg ctx =
     (case message_reply_to core msg of
        None \<Rightarrow> ctx
      | Some reply_to \<Rightarrow>
          (let reply_result = decode (message_payload core msg) in
           case reply_senders ctx reply_to of
             None \<Rightarrow> ctx
           | Some ch \<Rightarrow>
               ctx\<lparr>reply_senders := (reply_senders ctx)(reply_to := None),
                   chans := (chans ctx)(ch := chan_send reply_result (chans ctx ch))\<rparr>))"

definition poll_replies ::
  "(u64 \<Rightarrow> 'ib \<Rightarrow> 'msg list \<times> 'ib) \<Rightarrow> ('did, 'key, 'msg, 'ob) ma_core \<Rightarrow>
     (bytes \<Rightarrow> (rstr, 'l scheme_val) result) \<Rightarrow> u64 \<Rightarrow> ('cfg, 'ib, 'l) cli_ctx \<Rightarrow> ('cfg, 'ib, 'l) cli_ctx" where
  "poll_replies drain core decode now ctx =
     (case drain now (inbox ctx) of
        (messages, ib) \<Rightarrow> fold (route_reply core decode) messages (ctx\<lparr>inbox := ib\<rparr>))"

section \<open>Sending\<close>

definition normalize_actor_str :: "rstr \<Rightarrow> rstr" where
  "normalize_actor_str input =
     (if starts_with input (lit ''@'') \<or> starts_with input (lit ''did:'') then input
      else lit ''@'' @ input)"

definition sender_url ::
  "('did, 'key, 'msg, 'ob) ma_core \<Rightarrow> ('cfg, 'ib, 'l) cli_ctx \<Rightarrow> rstr \<Rightarrow> (rstr, rstr) result" where
  "sender_url core ctx fragment =
     and_then (did_try_from core (our_did ctx))
       (\<lambda>did. and_then (did_with_fragment core did fragment) (\<lambda>url. Ok (did_id core url)))"

definition build_signing_key ::
  "('did, 'key, 'msg, 'ob) ma_core \<Rightarrow> ('cfg, 'ib, 'l) cli_ctx \<Rightarrow> rstr \<Rightarrow> (rstr, rstr \<times> 'key) result" where
  "build_signing_key core ctx fragment =
     and_then (sender_url core ctx fragment)
       (\<lambda>sender. and_then (did_try_from core sender)
          (\<lambda>signing_did. and_then (key_from_bytes core signing_did (signing_key_bytes ctx))
             (\<lambda>signing_key. Ok (sender, signing_key))))"

definition actor_atom :: "rstr \<Rightarrow> rstr" where
  "actor_atom verb = (if starts_with verb (lit '':'') then verb else lit '':'' @ verb)"

definition actor_term :: "('l scheme_val \<Rightarrow> rstr) \<Rightarrow> rstr \<Rightarrow> 'l scheme_val list \<Rightarrow> 'o cbor" where
  "actor_term display verb args =
     (if args = [] then CText (actor_atom verb)
      else CArray (CText (actor_atom verb) # map (scheme_val_to_cbor display) args))"

text \<open>
  The asynchronous half both send operations share: open an outbox to the target, send.  Beside
  the result (the message id) the messages that really left are returned.
\<close>

definition deliver ::
  "('did, 'key, 'msg, 'ob) ma_core \<Rightarrow> rstr \<Rightarrow> 'msg \<Rightarrow> (rstr, rstr) result \<times> (rstr \<times> 'msg) list" where
  "deliver core target msg =
     (case endpoint_outbox core target (inbox_protocol_id core) of
        Err e \<Rightarrow> (Err e, [])
      | Ok ob \<Rightarrow>
          (case outbox_send core ob msg of
             Err e \<Rightarrow> (Err e, [])
           | Ok _ \<Rightarrow> (Ok (message_id core msg), [(target, msg)])))"

definition send_actor ::
  "('did, 'key, 'msg, 'ob) ma_core \<Rightarrow> ('o cbor \<Rightarrow> (rstr, bytes) result) \<Rightarrow> ('l scheme_val \<Rightarrow> rstr) \<Rightarrow>
     ('cfg, 'ib, 'l) cli_ctx \<Rightarrow> rstr \<Rightarrow> rstr \<Rightarrow> 'l scheme_val list \<Rightarrow>
     (rstr, rstr) result \<times> (rstr \<times> 'msg) list" where
  "send_actor core into_writer display ctx target verb args =
     (case did_validate_url core target of
        Err e \<Rightarrow> (Err e, [])
      | Ok _ \<Rightarrow>
          (case build_signing_key core ctx (lit ''inbox'') of
             Err e \<Rightarrow> (Err e, [])
           | Ok (sender, signing_key) \<Rightarrow>
               (case into_writer (actor_term display verb args) of
                  Err e \<Rightarrow> (Err e, [])
                | Ok body \<Rightarrow>
                    (case message_new core sender target (message_type_message core)
                            (content_type_term core) body signing_key of
                       Err e \<Rightarrow> (Err e, [])
                     | Ok msg \<Rightarrow> deliver core target msg))))"

definition send_text ::
  "('did, 'key, 'msg, 'ob) ma_core \<Rightarrow> ('cfg, 'ib, 'l) cli_ctx \<Rightarrow> rstr \<Rightarrow> rstr \<Rightarrow>
     (rstr, rstr) result \<times> (rstr \<times> 'msg) list" where
  "send_text core ctx target body =
     (case did_validate_url core target of
        Err e \<Rightarrow> (Err e, [])
      | Ok _ \<Rightarrow>
          (case build_signing_key core ctx (lit ''inbox'') of
             Err e \<Rightarrow> (Err e, [])
           | Ok (sender, signing_key) \<Rightarrow>
               (case message_new core sender target (message_type_message core)
                       (lit ''text/plain'') (utf8_encode body) signing_key of
                  Err e \<Rightarrow> (Err e, [])
                | Ok msg \<Rightarrow> deliver core target msg)))"

section \<open>Actor calls\<close>

text \<open>
  \<open>do_actor_call\<close> up to its last await: it has failed, or it waits on a channel.  The channel is
  made and registered only after the send has been awaited.
\<close>

datatype call_progress = CallFailed scheme_err | CallWaiting nat

definition do_actor_call ::
  "('did, 'key, 'msg, 'ob) ma_core \<Rightarrow> ('o cbor \<Rightarrow> (rstr, bytes) result) \<Rightarrow> ('l scheme_val \<Rightarrow> rstr) \<Rightarrow>
     nat \<Rightarrow> rstr \<Rightarrow> rstr \<Rightarrow> 'l scheme_val list \<Rightarrow> ('cfg, 'ib, 'l) cli_ctx \<Rightarrow>
     call_progress \<times> ('cfg, 'ib, 'l) cli_ctx \<times> (rstr \<times> 'msg) list" where
  "do_actor_call core into_writer display ch target verb args ctx =
     (case send_actor core into_writer display ctx target verb args of
        (Err e, sent) \<Rightarrow> (CallFailed (MaError e), ctx, sent)
      | (Ok msg_id, sent) \<Rightarrow>
          (CallWaiting ch,
           register_reply_sender msg_id ch (ctx\<lparr>chans := (chans ctx)(ch := ChanOpen)\<rparr>), sent))"

text \<open>The match on \<open>receiver.await\<close>; \<open>None\<close> while the channel is still open.\<close>

fun await_reply :: "'l chan \<Rightarrow> (scheme_err, 'l scheme_val) result option" where
  "await_reply ChanOpen = None"
| "await_reply (ChanSent (Ok val)) = Some (Ok val)"
| "await_reply (ChanSent (Err e)) = Some (Err (MaError e))"
| "await_reply ChanDropped = Some (Err (MaError (lit ''reply channel cancelled'')))"
| "await_reply ChanClosed = None"

definition eval_actor ::
  "('did, 'key, 'msg, 'ob) ma_core \<Rightarrow> ('o cbor \<Rightarrow> (rstr, bytes) result) \<Rightarrow> ('l scheme_val \<Rightarrow> rstr) \<Rightarrow>
     (rstr \<Rightarrow> 'cfg \<Rightarrow> (rstr, rstr \<times> rstr \<times> rstr list) result) \<Rightarrow> nat \<Rightarrow> rstr \<Rightarrow> ('cfg, 'ib, 'l) cli_ctx \<Rightarrow>
     call_progress \<times> ('cfg, 'ib, 'l) cli_ctx \<times> (rstr \<times> 'msg) list" where
  "eval_actor core into_writer display parse_actor_command ch command ctx =
     (case parse_actor_command (normalize_actor_str command) (config ctx) of
        Err e \<Rightarrow> (CallFailed (MaError e), ctx, [])
      | Ok (target, verb, str_args) \<Rightarrow>
          do_actor_call core into_writer display ch target verb (map SStr str_args) ctx)"

definition eval_actor_with_vals ::
  "('did, 'key, 'msg, 'ob) ma_core \<Rightarrow> ('o cbor \<Rightarrow> (rstr, bytes) result) \<Rightarrow> ('l scheme_val \<Rightarrow> rstr) \<Rightarrow>
     (rstr \<Rightarrow> 'cfg \<Rightarrow> (rstr, rstr \<times> rstr \<times> rstr list) result) \<Rightarrow> nat \<Rightarrow> rstr \<Rightarrow> 'l scheme_val list \<Rightarrow>
     ('cfg, 'ib, 'l) cli_ctx \<Rightarrow> call_progress \<times> ('cfg, 'ib, 'l) cli_ctx \<times> (rstr \<times> 'msg) list" where
  "eval_actor_with_vals core into_writer display parse_actor_command ch actor args ctx =
     (case parse_actor_command (normalize_actor_str actor) (config ctx) of
        Err e \<Rightarrow> (CallFailed (MaError e), ctx, [])
      | Ok (target, verb, _) \<Rightarrow>
          do_actor_call core into_writer display ch target verb args ctx)"

section \<open>Correctness of the dot commands\<close>

text \<open>
  What a dot command stores is what the next read of that path returns, and after a delete
  the path reads as an error, for every registry whose lookups see its own updates.
\<close>

lemma eval_dot_store_read:
  assumes "parse c_set = Some (path, DotSet val)" and "parse c_get = Some (path, DotGet)"
    and "parse c_del = Some (path, DotDelete)"
    and "\<And>c. reg_get reg (reg_set reg c path val) path = Some val"
    and "\<And>c. reg_get reg (reg_delete_subtree reg c path) path = None"
    and "\<And>c. reg_list reg (reg_delete_subtree reg c path) path = []"
  shows "fst (eval_dot parse reg c_get (snd (eval_dot parse reg c_set ctx))) = Ok (SStr val) \<and>
         fst (eval_dot parse reg c_get (snd (eval_dot parse reg c_del ctx))) =
           Err (MaError (lit ''no value at .'' @ replace_char path (chr CHR ''/'') (lit ''.'')))"
  using assms by (simp add: eval_dot_def)

text \<open>
  A dot command changes nothing but the registry, and the registry only when it is a set or
  a delete.  In particular a meta-verb (\<open>.path!verb\<close>) reports success and does nothing.
\<close>

lemma eval_dot_frame:
  "(\<exists>cfg. snd (eval_dot parse reg command ctx) = ctx\<lparr>config := cfg\<rparr>) \<and>
   (config (snd (eval_dot parse reg command ctx)) = config ctx \<or>
      (\<exists>path val. parse command = Some (path, DotSet val) \<or> parse command = Some (path, DotDelete))) \<and>
   (\<forall>path verb args. parse command = Some (path, DotMeta verb args) \<longrightarrow>
      eval_dot parse reg command ctx = (Ok SNil, ctx))"
  by (auto simp: eval_dot_def Let_def split: option.splits dot_op.splits intro: exI [of _ "config ctx"])

definition sample_registry :: "(rstr \<times> rstr) list registry" where
  "sample_registry =
     \<lparr>reg_get = map_of, reg_list = (\<lambda>_ _. []), reg_set = (\<lambda>m k v. (k, v) # m),
      reg_delete_subtree = (\<lambda>m k. filter (\<lambda>e. fst e \<noteq> k) m), reg_resolve_target = (\<lambda>_ r. Ok r)\<rparr>"

definition sample_init :: "((rstr \<times> rstr) list, unit) cli_ctx_init" where
  "sample_init = \<lparr>init_config = [], init_our_did = [], init_signing_key_bytes = [],
     init_kubo_url = [], init_inbox = ()\<rparr>"

section \<open>Correctness of sending\<close>

lemma actor_atom_colon: "starts_with (actor_atom verb) (lit '':'')"
  by (simp add: actor_atom_def starts_with_def)

lemma actor_atom_idem [simp]: "actor_atom (actor_atom verb) = actor_atom verb"
  by (simp add: actor_atom_def starts_with_def)

text \<open>
  The term sent to an actor: the verb as an atom with exactly one leading colon added when
  it lacks one, alone when there are no arguments, else followed by the arguments, which the
  receiver decodes to the caller's values.
\<close>

lemma actor_term_decodes:
  "list_all data_val args \<Longrightarrow>
     cbor_to_scheme_val debug (actor_term display verb args) =
       (if args = [] then SStr (actor_atom verb) else SList (SStr (actor_atom verb) # args)) \<and>
     starts_with (actor_atom verb) (lit '':'') \<and> actor_atom (actor_atom verb) = actor_atom verb"
  using actor_atom_colon [of verb]
  by (auto simp: actor_term_def list_all_iff cbor_round_trip_data intro!: map_idI)

lemma deliver_effect:
  "deliver core target msg = (r, sent) \<Longrightarrow>
     (case r of Err _ \<Rightarrow> sent = [] | Ok mid \<Rightarrow> sent = [(target, msg)] \<and> mid = message_id core msg)"
  by (auto simp: deliver_def split: sum.splits)


lemma send_text_effect:
  "(case send_text core ctx target body of
      (Err e, sent) \<Rightarrow> sent = []
    | (Ok mid, sent) \<Rightarrow>
        is_ok (did_validate_url core target) \<and>
        (\<exists>msg sender key.
           sent = [(target, msg)] \<and> mid = message_id core msg \<and>
           build_signing_key core ctx (lit ''inbox'') = Ok (sender, key) \<and>
           message_new core sender target (message_type_message core) (lit ''text/plain'')
             (utf8_encode body) key = Ok msg))"
  unfolding send_text_def
  by (auto split: sum.splits prod.splits dest!: deliver_effect)

lemma normalize_actor_str_prefixed:
  "starts_with (normalize_actor_str s) (lit ''@'') \<or> starts_with (normalize_actor_str s) (lit ''did:'')"
  by (auto simp: normalize_actor_str_def starts_with_def)

lemma normalize_actor_str_idem [simp]: "normalize_actor_str (normalize_actor_str s) = normalize_actor_str s"
  by (auto simp: normalize_actor_str_def starts_with_def)

end
