(* ===== verification/Zs_Daemon.thy ===== *)
theory Zs_Daemon
  imports Zs_Lines Zs_Ipc Zs_Context
begin

text \<open>
  The backend daemon (\<open>src/src/daemon.rs\<close>): one connection's request loop over the byte stream,
  the evaluation of a request with its display redirect and its choice of environment, the writer
  task, taking over the socket, and the accept loop with its session image.

  The evaluator is a record of functions: evaluation takes an environment and the context and
  gives the texts displayed, the result, the environment and the context afterwards.  An
  environment handle is shared and mutated in place, so the model threads the environment's
  content through.
\<close>

section \<open>The evaluator and the daemon's state\<close>

record ('e, 'cfg, 'ib, 'l) engine =
  eng_eval_source :: "rstr \<Rightarrow> 'e \<Rightarrow> ('cfg, 'ib, 'l) cli_ctx \<Rightarrow>
    rstr list \<times> 'l eval_result \<times> 'e \<times> ('cfg, 'ib, 'l) cli_ctx"
  eng_eval_source_in :: "rstr \<Rightarrow> 'e \<Rightarrow> ('cfg, 'ib, 'l) cli_ctx \<Rightarrow>
    rstr list \<times> 'l eval_result \<times> 'e \<times> ('cfg, 'ib, 'l) cli_ctx"
  eng_new_root :: 'e
  eng_session_init :: 'e
  eng_dump_env :: "'e \<Rightarrow> rstr"
  eng_display :: "'l scheme_val \<Rightarrow> rstr"
  eng_parse_dot :: "rstr \<Rightarrow> (rstr \<times> dot_op) option"
  eng_registry :: "'cfg registry"

record ('e, 'cfg, 'ib, 'l) daemon =
  d_env :: 'e
  d_ctx :: "('cfg, 'ib, 'l) cli_ctx"
  d_stop :: bool

definition pkg_version :: rstr where
  "pkg_version = lit ''0.3.0''"

text \<open>The context's dot evaluation as an evaluation that displays nothing.\<close>

definition host_eval_dot ::
  "('e, 'cfg, 'ib, 'l) engine \<Rightarrow> rstr \<Rightarrow> (('cfg, 'ib, 'l) cli_ctx, 'l) evaluation" where
  "host_eval_dot eng command ctx =
     (case eval_dot (eng_parse_dot eng) (eng_registry eng) command ctx of (r, ctx') \<Rightarrow> ([], r, ctx'))"

section \<open>One evaluation\<close>

text \<open>What the display closure does with an event: a frame for the connection it was made for.\<close>

definition display_responses :: "nat \<Rightarrow> display_event list \<Rightarrow> response list" where
  "display_responses conn evs =
     concat (map (\<lambda>ev. case ev of
                ToSink c rid txt \<Rightarrow> if c = conn then [Display rid txt] else []
              | ToStdout txt \<Rightarrow> []) evs)"

definition run_evaluation ::
  "('e, 'cfg, 'ib, 'l) engine \<Rightarrow> rstr \<Rightarrow> bool \<Rightarrow> 'e option \<Rightarrow> 'e \<Rightarrow> ('cfg, 'ib, 'l) cli_ctx \<Rightarrow>
     rstr list \<times> 'l eval_result \<times> 'e option \<times> 'e \<times> ('cfg, 'ib, 'l) cli_ctx" where
  "run_evaluation eng source isolated isolated_env env ctx =
     (if is_dot_command_line source then
        (case eval_dot_line (host_eval_dot eng) source ctx of
           (texts, r, ctx') \<Rightarrow> (texts, r, isolated_env, env, ctx'))
      else if isolated then
        (case eng_eval_source_in eng source
                (case isolated_env of Some e \<Rightarrow> e | None \<Rightarrow> eng_new_root eng) ctx of
           (texts, r, e', ctx') \<Rightarrow> (texts, r, Some e', env, ctx'))
      else
        (case eng_eval_source eng source env ctx of
           (texts, r, env', ctx') \<Rightarrow> (texts, r, isolated_env, env', ctx')))"

definition eval_request ::
  "('e, 'cfg, 'ib, 'l) engine \<Rightarrow> nat \<Rightarrow> u64 \<Rightarrow> rstr \<Rightarrow> bool \<Rightarrow> 'e option \<Rightarrow> ('e, 'cfg, 'ib, 'l) daemon \<Rightarrow>
     display_event list \<times> outcome \<times> 'e option \<times> ('e, 'cfg, 'ib, 'l) daemon" where
  "eval_request eng conn rid source isolated isolated_env d =
     (let ctx1 = set_display_sink (Some (Sink conn rid)) (d_ctx d) in
      case run_evaluation eng source isolated isolated_env (d_env d) ctx1 of
        (texts, result, isolated_env', env', ctx2) \<Rightarrow>
          (map (display_output ctx1) texts, render_result (eng_display eng) result, isolated_env',
           d\<lparr>d_env := env', d_ctx := set_display_sink None ctx2\<rparr>))"

section \<open>One connection\<close>

text \<open>
  The body of the request loop: the responses sent to the writer, the daemon's and the
  connection's new state, and whether the loop goes on.
\<close>

definition handle_request ::
  "('e, 'cfg, 'ib, 'l) engine \<Rightarrow> nat \<Rightarrow> request \<Rightarrow> 'e option \<Rightarrow> ('e, 'cfg, 'ib, 'l) daemon \<Rightarrow>
     response list \<times> 'e option \<times> ('e, 'cfg, 'ib, 'l) daemon \<times> bool" where
  "handle_request eng conn req ienv d =
     (case req of
        Hello version \<Rightarrow> ([HelloAck pkg_version (our_did (d_ctx d))], ienv, d, True)
      | Ping \<Rightarrow> ([Pong], ienv, d, True)
      | Stop \<Rightarrow> ([Stopping], ienv, d\<lparr>d_stop := True\<rparr>, False)
      | Reset \<Rightarrow> ([ResetDone], ienv, d\<lparr>d_env := eng_session_init eng\<rparr>, True)
      | DumpEnv \<Rightarrow> ([EnvDump (eng_dump_env eng (d_env d))], ienv, d, True)
      | Eval rid source isolated \<Rightarrow>
          (case eval_request eng conn rid source isolated ienv d of
             (evs, outcome, ienv', d') \<Rightarrow>
               (display_responses conn evs @ [EvalResult rid outcome], ienv', d', True)))"

datatype conn_status = ConnWaiting | ConnFinished "(ipc_error, unit) result"

function handle_loop ::
  "('e, 'cfg, 'ib, 'l) engine \<Rightarrow> (bytes \<Rightarrow> (rstr, request) result) \<Rightarrow> nat \<Rightarrow> ipc_stream \<Rightarrow> 'e option \<Rightarrow>
     ('e, 'cfg, 'ib, 'l) daemon \<Rightarrow> response list \<times> 'e option \<times> ('e, 'cfg, 'ib, 'l) daemon \<times> conn_status" where
  "handle_loop eng from_reader conn s ienv d =
     (case read_frame from_reader s of
        FramePending \<Rightarrow> ([], ienv, d, ConnWaiting)
      | FrameNone \<Rightarrow> ([], ienv, d, ConnFinished (Ok ()))
      | FrameErr e \<Rightarrow> ([], ienv, d, ConnFinished (Err e))
      | FrameGot req s' \<Rightarrow>
          (case handle_request eng conn req ienv d of
             (rs, ienv', d', go) \<Rightarrow>
               if go then
                 (case handle_loop eng from_reader conn s' ienv' d' of
                    (rs', ienv'', d'', st) \<Rightarrow> (rs @ rs', ienv'', d'', st))
               else (rs, ienv', d', ConnFinished (Ok ()))))"
  by pat_completeness auto
termination
  by (relation "measure (\<lambda>(eng, dec, conn, s, ienv, d). length (incoming s))")
    (auto dest: read_frame_shrinks)

declare handle_loop.simps [simp del]

text \<open>The writer task: frames in channel order, until a write fails.\<close>

fun writer_task ::
  "(response \<Rightarrow> (rstr, bytes) result) \<Rightarrow> response list \<Rightarrow> ipc_stream \<Rightarrow> ipc_stream" where
  "writer_task into_writer [] s = s"
| "writer_task into_writer (r # rs) s =
     (case write_frame into_writer r s of
        (s', Ok _) \<Rightarrow> writer_task into_writer rs s'
      | (s', Err _) \<Rightarrow> s')"

definition handle_conn ::
  "('e, 'cfg, 'ib, 'l) engine \<Rightarrow> (response \<Rightarrow> (rstr, bytes) result) \<Rightarrow> (bytes \<Rightarrow> (rstr, request) result) \<Rightarrow>
     nat \<Rightarrow> ipc_stream \<Rightarrow> ('e, 'cfg, 'ib, 'l) daemon \<Rightarrow>
     ipc_stream \<times> ('e, 'cfg, 'ib, 'l) daemon \<times> conn_status" where
  "handle_conn eng into_writer from_reader conn s d =
     (case handle_loop eng from_reader conn s None d of
        (rs, _, d', st) \<Rightarrow> (writer_task into_writer rs s, d', st))"

section \<open>Taking over the socket\<close>

definition is_stopping :: "response \<Rightarrow> bool" where
  "is_stopping r = (case r of Stopping \<Rightarrow> True | _ \<Rightarrow> False)"

text \<open>
  The wait for the old daemon: up to \<open>n\<close> checks, one each 100 ms; check \<open>k\<close> sees \<open>exists k\<close>.
\<close>

fun wait_released :: "(nat \<Rightarrow> bool) \<Rightarrow> nat \<Rightarrow> nat \<Rightarrow> bool" where
  "wait_released path_exists k 0 = False"
| "wait_released path_exists k (Suc n) =
     (if \<not> path_exists k then True else wait_released path_exists (Suc k) n)"

datatype claim_outcome = Claimed | ClaimedRemoving | ClaimFailed ipc_error | ClaimRefused rstr | ClaimWaiting

definition remove_stale :: "(rstr, unit) result \<Rightarrow> path \<Rightarrow> claim_outcome" where
  "remove_stale remove_file path =
     (case remove_file of
        Err _ \<Rightarrow> ClaimRefused (lit ''cannot remove stale socket '' @ path)
      | Ok _ \<Rightarrow> ClaimedRemoving)"

definition claim_socket ::
  "(request \<Rightarrow> (rstr, bytes) result) \<Rightarrow> (bytes \<Rightarrow> (rstr, response) result) \<Rightarrow>
     (rstr, path) result \<Rightarrow> (nat \<Rightarrow> bool) \<Rightarrow> (nat \<Rightarrow> ipc_stream option) \<Rightarrow> (rstr, unit) result \<Rightarrow> claim_outcome" where
  "claim_socket into_writer from_reader sock path_exists connect remove_file =
     (case sock of
        Err e \<Rightarrow> ClaimRefused e
      | Ok path \<Rightarrow>
          if \<not> path_exists 0 then Claimed
          else
            (case connect 0 of
               Some stream \<Rightarrow>
                 (case write_frame into_writer Stop stream of
                    (_, Err e) \<Rightarrow> ClaimFailed e
                  | (stream', Ok _) \<Rightarrow>
                      (case read_until from_reader is_stopping stream' of
                         UntilErr e \<Rightarrow> ClaimFailed e
                       | UntilPending \<Rightarrow> ClaimWaiting
                       | _ \<Rightarrow>
                           if wait_released path_exists 1 50 then Claimed
                           else if connect 1 \<noteq> None
                           then ClaimRefused (lit ''running daemon did not release '' @ path
                                  @ lit '' '' @ em_dash # lit '' kill it manually'')
                           else remove_stale remove_file path))
             | None \<Rightarrow> remove_stale remove_file path))"

section \<open>The accept loop and the session image\<close>

datatype server_event =
    Accepted
  | AcceptFailed rstr
  | StopNotified
  | CtrlC
  | Terminated "(rstr, unit) result"

text \<open>
  The future that resolves on SIGTERM: \<open>None\<close> while it is pending, which on Windows it always is.
  \<open>install\<close> is whether the handler can be installed, \<open>received\<close> whether the signal has come.
\<close>

definition wait_for_terminate_signal ::
  "platform \<Rightarrow> (rstr, unit) result \<Rightarrow> bool \<Rightarrow> (rstr, unit) result option" where
  "wait_for_terminate_signal plat install received =
     (case plat of
        Unix \<Rightarrow>
          (case install of
             Err e \<Rightarrow> Some (Err (lit ''cannot install SIGTERM handler''))
           | Ok _ \<Rightarrow> if received then Some (Ok ()) else None)
      | Windows \<Rightarrow> None)"

text \<open>How many connections were spawned, and how the loop ended: it still runs, it was broken
  out of, or the error of the terminate signal is returned.\<close>

datatype loop_end = LoopRunning | LoopBroken | LoopError rstr

fun accept_loop :: "server_event list \<Rightarrow> nat \<Rightarrow> nat \<times> loop_end" where
  "accept_loop [] n = (n, LoopRunning)"
| "accept_loop (Accepted # evs) n = accept_loop evs (Suc n)"
| "accept_loop (AcceptFailed e # evs) n = accept_loop evs n"
| "accept_loop (StopNotified # evs) n = (n, LoopBroken)"
| "accept_loop (CtrlC # evs) n = (n, LoopBroken)"
| "accept_loop (Terminated (Ok _) # evs) n = (n, LoopBroken)"
| "accept_loop (Terminated (Err e) # evs) n = (n, LoopError e)"

datatype run_error = RunIpc ipc_error | RunMsg rstr

datatype daemon_effect =
    ImageEvaluated rstr
  | SocketBound
  | SocketPrivate
  | SocketRemoved
  | ImageWritten rstr

text \<open>
  Start-up of \<open>run\<close>: the image, when one is given and its file exists, is evaluated into the
  session environment; an evaluation error is only logged, and what the image displays, with no
  sink set, goes to the daemon's own output, which is left out.
\<close>

definition load_image ::
  "('e, 'cfg, 'ib, 'l) engine \<Rightarrow> (rstr, rstr) result option \<Rightarrow> path \<Rightarrow> ('e, 'cfg, 'ib, 'l) daemon \<Rightarrow>
     (rstr, ('e, 'cfg, 'ib, 'l) daemon \<times> daemon_effect list) result" where
  "load_image eng file img_path d =
     (case file of
        None \<Rightarrow> Ok (d, [])
      | Some (Err e) \<Rightarrow> Err (lit ''cannot read image '' @ img_path)
      | Some (Ok source) \<Rightarrow>
          (case eng_eval_source eng source (d_env d) (d_ctx d) of
             (_, _, env', ctx') \<Rightarrow> Ok (d\<lparr>d_env := env', d_ctx := ctx'\<rparr>, [ImageEvaluated source])))"

text \<open>
  \<open>run\<close> as a whole.  \<open>serve\<close> is what the connections do to the daemon's state while the loop
  accepts; \<open>img\<close> is the image path with its file's content when it exists.  \<open>bind_result\<close> stands
  for everything from binding to the log line; the socket's path, resolved there, is taken to
  resolve again at the end.
\<close>

definition daemon_run ::
  "('e, 'cfg, 'ib, 'l) engine \<Rightarrow> claim_outcome \<Rightarrow> (path \<times> (rstr, rstr) result option) option \<Rightarrow>
     (rstr, unit) result \<Rightarrow> server_event list \<Rightarrow> (('e, 'cfg, 'ib, 'l) daemon \<Rightarrow> ('e, 'cfg, 'ib, 'l) daemon) \<Rightarrow>
     ('e, 'cfg, 'ib, 'l) daemon \<Rightarrow> daemon_effect list \<times> (run_error, unit) result option" where
  "daemon_run eng claim img bind_result evs serve d =
     (case claim of
        ClaimWaiting \<Rightarrow> ([], None)
      | ClaimFailed e \<Rightarrow> ([], Some (Err (RunIpc e)))
      | ClaimRefused e \<Rightarrow> ([], Some (Err (RunMsg e)))
      | _ \<Rightarrow>
          (case (case img of None \<Rightarrow> Ok (d, []) | Some (p, file) \<Rightarrow> load_image eng file p d) of
             Err e \<Rightarrow> ([], Some (Err (RunMsg e)))
           | Ok (d1, effs) \<Rightarrow>
               (case bind_result of
                  Err e \<Rightarrow> (effs, Some (Err (RunMsg e)))
                | Ok _ \<Rightarrow>
                    (case accept_loop evs 0 of
                       (_, LoopRunning) \<Rightarrow> (effs @ [SocketBound, SocketPrivate], None)
                     | (_, LoopError e) \<Rightarrow> (effs @ [SocketBound, SocketPrivate], Some (Err (RunMsg e)))
                     | (_, LoopBroken) \<Rightarrow>
                         (effs @ [SocketBound, SocketPrivate, SocketRemoved] @
                            (case img of None \<Rightarrow> []
                             | Some _ \<Rightarrow> [ImageWritten (eng_dump_env eng (d_env (serve d1)))]),
                          Some (Ok ()))))))"

end
