(* ===== verification/Zs_Serve.thy ===== *)
theory Zs_Serve
  imports Zs_Daemon
begin

text \<open>
  What a daemon connection promises: the answer to each request, the isolation of environments,
  the display redirect, and that the byte-level loop implements a service on request lists.
\<close>

section \<open>One evaluation\<close>

lemma display_responses_own:
  "display_responses conn (map (ToSink conn rid) texts) = map (Display rid) texts"
  by (induction texts) (auto simp: display_responses_def)

lemma display_output_sink:
  "display_output (set_display_sink (Some (Sink conn rid)) ctx) = ToSink conn rid"
  by (simp add: fun_eq_iff display_output_def set_display_sink_def)

lemma eval_request_unfold:
  assumes "run_evaluation eng source isolated ienv (d_env d)
      (set_display_sink (Some (Sink conn rid)) (d_ctx d)) = (texts, r, ienv', env', ctx2)"
  shows "eval_request eng conn rid source isolated ienv d =
    (map (ToSink conn rid) texts, render_result (eng_display eng) r, ienv',
     d\<lparr>d_env := env', d_ctx := set_display_sink None ctx2\<rparr>)"
  using assms by (simp add: eval_request_def Let_def display_output_sink)

text \<open>
  Environments are kept apart: an isolated evaluation leaves the shared session environment
  as it was, a shared evaluation leaves the connection's own one, and a dot command touches
  neither; the own environment starts as a fresh root and persists from then on.
\<close>

lemma eval_request_isolation:
  assumes "eval_request eng conn rid source isolated ienv d = (evs, outcome, ienv', d')"
  shows "(isolated \<or> is_dot_command_line source \<longrightarrow> d_env d' = d_env d) \<and>
    (\<not> isolated \<or> is_dot_command_line source \<longrightarrow> ienv' = ienv) \<and>
    (isolated \<and> \<not> is_dot_command_line source \<longrightarrow>
       ienv' = Some (fst (snd (snd (eng_eval_source_in eng source
         (case ienv of Some e \<Rightarrow> e | None \<Rightarrow> eng_new_root eng)
         (set_display_sink (Some (Sink conn rid)) (d_ctx d)))))))"
  using assms
  by (auto simp: eval_request_def run_evaluation_def Let_def split: prod.splits if_splits)

text \<open>A small evaluator for the examples: it displays the source, and its environment is the list
  of sources it has seen.\<close>

definition sample_engine :: "(rstr list, unit, unit, unit) engine" where
  "sample_engine =
     \<lparr>eng_eval_source = (\<lambda>src e c. ([src], Ok (SStr src), src # e, c)),
      eng_eval_source_in = (\<lambda>src e c. ([src], Ok (SStr src), src # e, c)),
      eng_new_root = [], eng_session_init = [], eng_dump_env = concat,
      eng_display = (\<lambda>v. case v of SStr s \<Rightarrow> s | _ \<Rightarrow> []),
      eng_parse_dot = (\<lambda>_. None),
      eng_registry = \<lparr>reg_get = (\<lambda>_ _. None), reg_list = (\<lambda>_ _. []), reg_set = (\<lambda>c _ _. c),
        reg_delete_subtree = (\<lambda>c _. c), reg_resolve_target = (\<lambda>_ r. Ok r)\<rparr>\<rparr>"

definition sample_daemon :: "(rstr list, unit, unit, unit) daemon" where
  "sample_daemon =
     \<lparr>d_env = [[7]],
      d_ctx = cli_ctx_new \<lparr>init_config = (), init_our_did = lit ''did:ma:me'',
        init_signing_key_bytes = [], init_kubo_url = [], init_inbox = ()\<rparr>,
      d_stop = False\<rparr>"

section \<open>Answers\<close>

text \<open>The response that ends the handling of a request.\<close>

fun answers :: "request \<Rightarrow> response \<Rightarrow> bool" where
  "answers (Hello v) r = (\<exists>w d. r = HelloAck w d)"
| "answers Ping r = (r = Pong)"
| "answers Stop r = (r = Stopping)"
| "answers Reset r = (r = ResetDone)"
| "answers DumpEnv r = (\<exists>s. r = EnvDump s)"
| "answers (Eval rid s i) r = (\<exists>out. r = EvalResult rid out)"

fun streams :: "request \<Rightarrow> response \<Rightarrow> bool" where
  "streams (Eval rid s i) r = (\<exists>txt. r = Display rid txt)"
| "streams _ r = False"

text \<open>
  Every request is answered by exactly one final response of its own kind and id, sent last;
  before it come only display events of that same evaluation; and the connection goes on after
  every request but \<open>Stop\<close>.
\<close>

lemma handle_request_answers:
  "case handle_request eng conn req ienv d of
     (rs, ienv', d', go) \<Rightarrow>
       (\<exists>ds r. rs = ds @ [r] \<and> answers req r \<and> list_all (streams req) ds) \<and> (go \<longleftrightarrow> req \<noteq> Stop)"
proof (cases req)
  case (Eval rid source isolated)
  obtain texts r ienv' env' ctx2 where
    "run_evaluation eng source isolated ienv (d_env d)
      (set_display_sink (Some (Sink conn rid)) (d_ctx d)) = (texts, r, ienv', env', ctx2)"
    by (metis prod_cases5)
  from eval_request_unfold [OF this] show ?thesis
    by (auto simp: Eval handle_request_def display_responses_own list_all_iff)
qed (simp_all add: handle_request_def)

section \<open>The service on request lists\<close>

text \<open>The abstract service: requests in, responses out, until one stops the connection.\<close>

fun serve_requests ::
  "('e, 'cfg, 'ib, 'l) engine \<Rightarrow> nat \<Rightarrow> request list \<Rightarrow> 'e option \<Rightarrow> ('e, 'cfg, 'ib, 'l) daemon \<Rightarrow>
     response list \<times> 'e option \<times> ('e, 'cfg, 'ib, 'l) daemon" where
  "serve_requests eng conn [] ienv d = ([], ienv, d)"
| "serve_requests eng conn (req # reqs) ienv d =
     (case handle_request eng conn req ienv d of
        (rs, ienv', d', go) \<Rightarrow>
          if go then
            (case serve_requests eng conn reqs ienv' d' of (rs', ienv'', d'') \<Rightarrow> (rs @ rs', ienv'', d''))
          else (rs, ienv', d'))"

lemma handle_loop_serves:
  assumes "list_all (frame_ok into_writer from_reader) reqs"
    and "incoming s = concat (map (frame_bytes into_writer) reqs)" and "ending s = Closed"
  shows "handle_loop eng from_reader conn s ienv d =
    (case serve_requests eng conn reqs ienv d of
       (rs, ienv', d') \<Rightarrow> (rs, ienv', d', ConnFinished (Ok ())))"
  using assms
proof (induction reqs arbitrary: s ienv d)
  case Nil
  then show ?case by (simp add: handle_loop.simps read_frame_empty)
next
  case (Cons req reqs)
  let ?s' = "s\<lparr>incoming := concat (map (frame_bytes into_writer) reqs)\<rparr>"
  have got: "read_frame from_reader s = FrameGot req ?s'"
    using ipc_link.recv_frames [where rest = "[]", OF Cons.prems(1)] Cons.prems(2) by simp
  obtain rs ienv1 d1 go where h: "handle_request eng conn req ienv d = (rs, ienv1, d1, go)"
    by (metis prod_cases4)
  have "handle_loop eng from_reader conn ?s' ienv1 d1 =
      (case serve_requests eng conn reqs ienv1 d1 of
         (rs, ienv', d') \<Rightarrow> (rs, ienv', d', ConnFinished (Ok ())))"
    using Cons.prems by (intro Cons.IH) simp_all
  then show ?case
    by (subst handle_loop.simps) (simp add: got h split: prod.splits)
qed

lemma writer_task_frames:
  assumes "list_all (frame_ok into_writer from_reader) rs" and "room s = None"
  shows "writer_task into_writer rs s = s\<lparr>outgoing := outgoing s @ concat (map (frame_bytes into_writer) rs)\<rparr>"
  using assms
  by (induction rs arbitrary: s) (auto simp: write_frame_ok)

text \<open>
  C12.  The byte-level connection implements the service: fed the frames of a list of requests and
  then closed, it leaves the daemon in the state the service reaches, ends without error, and has
  written exactly the frames of the service's responses, in order.
\<close>

theorem handle_conn_serves:
  assumes "list_all (frame_ok req_writer req_reader) reqs"
    and "incoming s = concat (map (frame_bytes req_writer) reqs)" and "ending s = Closed"
    and "room s = None" and "serve_requests eng conn reqs None d = (rs, ienv', d')"
    and "list_all (frame_ok resp_writer resp_reader) rs"
  shows "handle_conn eng resp_writer req_reader conn s d =
    (s\<lparr>outgoing := outgoing s @ concat (map (frame_bytes resp_writer) rs)\<rparr>, d', ConnFinished (Ok ()))"
  using handle_loop_serves [OF assms(1-3), of eng conn None d] writer_task_frames [OF assms(6,4)] assms(5)
  by (simp add: handle_conn_def)

definition sample_reqs :: "(request \<times> bytes) list" where
  "sample_reqs = [(Ping, [1]), (Eval 1 (lit ''x'') False, [2]), (Stop, [3])]"

definition sample_resps :: "(response \<times> bytes) list" where
  "sample_resps =
     [(Pong, [1]), (Display 1 (lit ''x''), [2, 2]), (EvalResult 1 (Ok (Some (lit ''x''))), [3]), (Stopping, [4])]"

lemma not_dot_x [simp]: "\<not> is_dot_command_line [120]"
  by (simp add: is_dot_command_line_def trim_def trim_start_def trim_end_def is_whitespace_def
      newline_def strip_prefix_def starts_with_def Let_def)

lemma sample_serve:
  "serve_requests sample_engine 0 [Ping, Eval 1 (lit ''x'') False, Stop] None sample_daemon =
     ([Pong, Display 1 (lit ''x''), EvalResult 1 (Ok (Some (lit ''x''))), Stopping], None,
      sample_daemon\<lparr>d_env := [lit ''x'', [7]], d_ctx := set_display_sink None (d_ctx sample_daemon), d_stop := True\<rparr>)"
  by (simp add: handle_request_def eval_request_def run_evaluation_def display_responses_def
      display_output_def set_display_sink_def render_result_def sample_engine_def sample_daemon_def Let_def)

theorem handle_conn_serves_witness:
  "outgoing (fst (handle_conn sample_engine (table_enc sample_resps) (table_dec sample_reqs) 0
      \<lparr>incoming = concat (map (frame_bytes (table_enc sample_reqs)) [Ping, Eval 1 (lit ''x'') False, Stop]),
       ending = Closed, outgoing = [], room = None\<rparr> sample_daemon))
   = [0, 0, 0, 1, 1, 0, 0, 0, 2, 2, 2, 0, 0, 0, 1, 3, 0, 0, 0, 1, 4]"
proof -
  let ?s = "\<lparr>incoming = concat (map (frame_bytes (table_enc sample_reqs)) [Ping, Eval 1 (lit ''x'') False, Stop]),
       ending = Closed, outgoing = [], room = None\<rparr>"
  have fit: "list_all (frame_ok (table_enc sample_reqs) (table_dec sample_reqs)) [Ping, Eval 1 (lit ''x'') False, Stop]"
    by (simp add: frame_ok_def table_enc_def table_dec_def sample_reqs_def)
  have fit': "list_all (frame_ok (table_enc sample_resps) (table_dec sample_resps))
      [Pong, Display 1 (lit ''x''), EvalResult 1 (Ok (Some (lit ''x''))), Stopping]"
    by (simp add: frame_ok_def table_enc_def table_dec_def sample_resps_def)
  show ?thesis
    by (subst handle_conn_serves [OF fit _ _ _ sample_serve fit'])
      (simp_all add: frame_bytes_def table_enc_def sample_resps_def to_be_bytes_def)
qed

end
