(* ===== verification/Zs_Server.thy ===== *)
theory Zs_Server
  imports Zs_Serve
begin

text \<open>
  The daemon's connections running concurrently (\<open>handle_conn\<close> and \<open>eval_request\<close> of
  \<open>src/src/daemon.rs\<close>): any number of connection tasks that meet at the evaluation lock and at the
  context's display sink.  The tasks interleave at their awaits, so the model is a step relation
  with one rule for each stretch of code between two awaits.  What an evaluation displays, returns and
  does to the context is left open, which covers every evaluator that leaves the sink alone until
  it returns, also one that never does.
\<close>

section \<open>States and steps\<close>

text \<open>
  A connection is reading, queued for the lock with its request's id, evaluating, or ended.  The
  lock is tokio's, which serves its waiters first come, first served.  \<open>srv_enq\<close> and \<open>srv_acq\<close> are
  the histories of evaluations submitted and begun.
\<close>

datatype conn_phase = ConnReading | ConnQueued u64 | ConnEvaluating u64 | ConnEnded

record ('cfg, 'ib, 'l) server =
  srv_ctx :: "('cfg, 'ib, 'l) cli_ctx"
  srv_conns :: "nat \<Rightarrow> conn_phase"
  srv_lock :: "nat option"
  srv_queue :: "nat list"
  srv_out :: "nat \<Rightarrow> response list"
  srv_stdout :: "rstr list"
  srv_enq :: "(nat \<times> u64) list"
  srv_acq :: "(nat \<times> u64) list"

fun is_eval :: "request \<Rightarrow> bool" where
  "is_eval (Eval rid src isolated) = True"
| "is_eval req = False"

fun stdout_of :: "display_event \<Rightarrow> rstr list" where
  "stdout_of (ToStdout txt) = [txt]"
| "stdout_of (ToSink c rid txt) = []"

inductive server_step ::
  "('cfg, 'ib, 'l) server \<Rightarrow> ('cfg, 'ib, 'l) server \<Rightarrow> bool" where
  srv_simple: "srv_conns s c = ConnReading \<Longrightarrow> \<not> is_eval req \<Longrightarrow> req \<noteq> Stop \<Longrightarrow> answers req r \<Longrightarrow>
    server_step s (s\<lparr>srv_out := (srv_out s)(c := srv_out s c @ [r])\<rparr>)"
| srv_stop: "srv_conns s c = ConnReading \<Longrightarrow>
    server_step s (s\<lparr>srv_out := (srv_out s)(c := srv_out s c @ [Stopping]),
      srv_conns := (srv_conns s)(c := ConnEnded)\<rparr>)"
| srv_close: "srv_conns s c = ConnReading \<Longrightarrow>
    server_step s (s\<lparr>srv_conns := (srv_conns s)(c := ConnEnded)\<rparr>)"
| srv_submit: "srv_conns s c = ConnReading \<Longrightarrow>
    server_step s (s\<lparr>srv_conns := (srv_conns s)(c := ConnQueued rid),
      srv_queue := srv_queue s @ [c], srv_enq := srv_enq s @ [(c, rid)]\<rparr>)"
| srv_acquire: "srv_lock s = None \<Longrightarrow> srv_queue s = c # q \<Longrightarrow> srv_conns s c = ConnQueued rid \<Longrightarrow>
    server_step s (s\<lparr>srv_conns := (srv_conns s)(c := ConnEvaluating rid), srv_lock := Some c,
      srv_queue := q, srv_acq := srv_acq s @ [(c, rid)],
      srv_ctx := set_display_sink (Some (Sink c rid)) (srv_ctx s)\<rparr>)"
| srv_display: "srv_conns s c = ConnEvaluating rid \<Longrightarrow>
    server_step s (s\<lparr>srv_out := (\<lambda>k. srv_out s k @ display_responses k [display_output (srv_ctx s) txt]),
      srv_stdout := srv_stdout s @ stdout_of (display_output (srv_ctx s) txt)\<rparr>)"
| srv_finish: "srv_conns s c = ConnEvaluating rid \<Longrightarrow>
    server_step s (s\<lparr>srv_conns := (srv_conns s)(c := ConnReading), srv_lock := None,
      srv_ctx := set_display_sink None ctx',
      srv_out := (srv_out s)(c := srv_out s c @ [EvalResult rid outcome])\<rparr>)"
| srv_other: "display_sink ctx' = display_sink (srv_ctx s) \<Longrightarrow>
    server_step s (s\<lparr>srv_ctx := ctx'\<rparr>)"

definition server_init :: "('cfg, 'ib, 'l) server \<Rightarrow> bool" where
  "server_init s \<longleftrightarrow>
     display_sink (srv_ctx s) = None \<and> srv_conns s = (\<lambda>_. ConnReading) \<and> srv_lock s = None \<and>
     srv_queue s = [] \<and> srv_out s = (\<lambda>_. []) \<and> srv_stdout s = [] \<and> srv_enq s = [] \<and> srv_acq s = []"

section \<open>The lock, the sink and the connections agree\<close>

text \<open>The display sink follows the lock: no holder, no sink; a holder evaluating \<open>rid\<close>, its sink.\<close>

definition lock_ok :: "('cfg, 'ib, 'l) server \<Rightarrow> bool" where
  "lock_ok s \<longleftrightarrow>
     (case srv_lock s of
        None \<Rightarrow> display_sink (srv_ctx s) = None \<and> (\<forall>c rid. srv_conns s c \<noteq> ConnEvaluating rid)
      | Some c \<Rightarrow>
          (\<exists>rid. srv_conns s c = ConnEvaluating rid \<and> display_sink (srv_ctx s) = Some (Sink c rid)) \<and>
          (\<forall>c' rid. srv_conns s c' = ConnEvaluating rid \<longrightarrow> c' = c)) \<and>
     srv_stdout s = []"

definition queue_ok :: "('cfg, 'ib, 'l) server \<Rightarrow> bool" where
  "queue_ok s \<longleftrightarrow> distinct (srv_queue s) \<and>
     (\<forall>c. c \<in> set (srv_queue s) \<longleftrightarrow> (\<exists>rid. srv_conns s c = ConnQueued rid))"

definition lock_inv :: "('cfg, 'ib, 'l) server \<Rightarrow> bool" where
  "lock_inv s \<longleftrightarrow> lock_ok s \<and> queue_ok s"

lemma display_sink_set [simp]: "display_sink (set_display_sink x ctx) = x"
  by (simp add: set_display_sink_def)

lemma lock_ok_evaluating:
  assumes "lock_ok s" and "srv_conns s c = ConnEvaluating rid"
  shows "srv_lock s = Some c" and "display_sink (srv_ctx s) = Some (Sink c rid)"
    and "display_output (srv_ctx s) msg = ToSink c rid msg"
    and "srv_conns s c' = ConnEvaluating rid' \<Longrightarrow> c' = c"
  using assms by (auto simp: lock_ok_def display_output_def split: option.splits)

lemma lock_ok_step: "server_step s t \<Longrightarrow> lock_ok s \<Longrightarrow> lock_ok t"
proof (induction rule: server_step.induct)
  case (srv_display s c rid msg)
  then have "display_output (srv_ctx s) msg = ToSink c rid msg" by (intro lock_ok_evaluating)
  with srv_display.prems show ?case by (auto simp: lock_ok_def split: option.splits)
next
  case (srv_finish s c rid outcome ctx')
  from lock_ok_evaluating(1) [OF srv_finish.prems srv_finish.hyps]
  show ?case using srv_finish.prems by (auto simp: lock_ok_def)
qed (auto simp: lock_ok_def split: option.splits if_splits)

lemma queue_ok_step: "server_step s t \<Longrightarrow> queue_ok s \<Longrightarrow> queue_ok t"
proof (induction rule: server_step.induct)
  case (srv_submit s c rid)
  then have "c \<notin> set (srv_queue s)" by (simp add: queue_ok_def)
  with srv_submit show ?case by (auto simp: queue_ok_def)
next
  case (srv_finish s c rid outcome ctx')
  then show ?case by (auto simp: queue_ok_def)
qed (auto simp: queue_ok_def)

lemma lock_inv_step: "server_step s t \<Longrightarrow> lock_inv s \<Longrightarrow> lock_inv t"
  by (simp add: lock_inv_def lock_ok_step queue_ok_step)

lemma lock_inv_init: "server_init s \<Longrightarrow> lock_inv s"
  by (simp add: server_init_def lock_inv_def lock_ok_def queue_ok_def)

section \<open>The response stream of a connection\<close>

text \<open>
  A stream is read by an automaton whose state is the evaluation whose displays have begun, if
  any: displays and the result must carry that id, and nothing else may come in between.
\<close>

fun stream_step :: "u64 option \<Rightarrow> response \<Rightarrow> u64 option option" where
  "stream_step None (Display i txt) = Some (Some i)"
| "stream_step (Some j) (Display i txt) = (if i = j then Some (Some j) else None)"
| "stream_step None r = Some None"
| "stream_step (Some j) (EvalResult i out) = (if i = j then Some None else None)"
| "stream_step (Some j) r = None"

fun stream_run :: "u64 option \<Rightarrow> response list \<Rightarrow> u64 option option" where
  "stream_run q [] = Some q"
| "stream_run q (r # rs) = (case stream_step q r of None \<Rightarrow> None | Some q' \<Rightarrow> stream_run q' rs)"

lemma stream_run_append:
  "stream_run q (xs @ ys) = (case stream_run q xs of None \<Rightarrow> None | Some q' \<Rightarrow> stream_run q' ys)"
  by (induction xs arbitrary: q) (auto split: option.splits)

fun stream_at :: "conn_phase \<Rightarrow> response list \<Rightarrow> bool" where
  "stream_at (ConnEvaluating rid) rs = (stream_run None rs \<in> {Some None, Some (Some rid)})"
| "stream_at p rs = (stream_run None rs = Some None)"

definition stream_ok :: "('cfg, 'ib, 'l) server \<Rightarrow> bool" where
  "stream_ok s \<longleftrightarrow> (\<forall>c. stream_at (srv_conns s c) (srv_out s c))"

lemma stream_step_simple: "\<not> is_eval req \<Longrightarrow> answers req r \<Longrightarrow> stream_step None r = Some None"
  by (cases req) auto

lemma stream_ok_set:
  assumes "stream_ok s" and "srv_out t = (srv_out s)(c := srv_out s c @ rs)"
    and "srv_conns t = (srv_conns s)(c := p)" and "stream_at p (srv_out s c @ rs)"
  shows "stream_ok t"
  using assms by (simp add: stream_ok_def)

lemma stream_ok_at: "stream_ok s \<Longrightarrow> stream_at (srv_conns s c) (srv_out s c)"
  by (simp add: stream_ok_def)

lemma stream_ok_reading: "stream_ok s \<Longrightarrow> srv_conns s c = ConnReading \<Longrightarrow> stream_run None (srv_out s c) = Some None"
  using stream_ok_at [of s c] by simp

lemma stream_ok_step: "server_step s t \<Longrightarrow> lock_inv s \<Longrightarrow> stream_ok s \<Longrightarrow> stream_ok t"
proof (induction rule: server_step.induct)
  case (srv_simple s c req r)
  then show ?case
    by (intro stream_ok_set [where rs = "[r]" and p = ConnReading, OF srv_simple.prems(2)])
      (auto simp: stream_run_append stream_ok_reading stream_step_simple)
next
  case (srv_stop s c)
  then show ?case
    by (intro stream_ok_set [where rs = "[Stopping]" and p = ConnEnded, OF srv_stop.prems(2)])
      (auto simp: stream_run_append stream_ok_reading)
next
  case (srv_close s c)
  then show ?case
    by (intro stream_ok_set [where rs = "[]" and p = ConnEnded, OF srv_close.prems(2)])
      (auto simp: stream_ok_reading)
next
  case (srv_submit s c rid)
  then show ?case
    by (intro stream_ok_set [where rs = "[]" and p = "ConnQueued rid", OF srv_submit.prems(2)])
      (auto simp: stream_ok_reading)
next
  case (srv_acquire s c q rid)
  then have "stream_run None (srv_out s c) = Some None" using stream_ok_at [of s c] by simp
  then show ?case
    by (intro stream_ok_set [where rs = "[]" and p = "ConnEvaluating rid", OF srv_acquire.prems(2)]) auto
next
  case (srv_display s c rid msg)
  have out: "display_output (srv_ctx s) msg = ToSink c rid msg"
    using srv_display.prems(1) srv_display.hyps by (simp add: lock_inv_def lock_ok_evaluating)
  have "stream_run None (srv_out s c) \<in> {Some None, Some (Some rid)}"
    using stream_ok_at [OF srv_display.prems(2), of c] srv_display.hyps by simp
  then show ?case using srv_display.hyps
    by (intro stream_ok_set [where c = c and rs = "[Display rid msg]" and p = "ConnEvaluating rid", OF srv_display.prems(2)])
      (auto simp: stream_run_append out display_responses_def fun_eq_iff)
next
  case (srv_finish s c rid outcome ctx')
  have "stream_run None (srv_out s c) \<in> {Some None, Some (Some rid)}"
    using stream_ok_at [OF srv_finish.prems(2), of c] srv_finish.hyps by simp
  then show ?case
    by (intro stream_ok_set [where rs = "[EvalResult rid outcome]" and p = ConnReading, OF srv_finish.prems(2)])
      (auto simp: stream_run_append)
next
  case (srv_other ctx' s)
  then show ?case by (simp add: stream_ok_def)
qed

lemma stream_ok_init: "server_init s \<Longrightarrow> stream_ok s"
  by (simp add: server_init_def stream_ok_def)

interpretation streams: relative_invariant server_init server_step lock_inv stream_ok
  by unfold_locales (fact lock_inv_init lock_inv_step stream_ok_init stream_ok_step)+

section \<open>The server as a first-in first-out queue\<close>

text \<open>
  The abstract server: jobs arrive, and one at a time is begun and ended.  It keeps the histories
  of the jobs that arrived and were begun.
\<close>

type_synonym job = "nat \<times> u64"

record fifo =
  ff_running :: "job option"
  ff_waiting :: "job list"
  ff_arrived :: "job list"
  ff_begun :: "job list"

inductive fifo_step :: "fifo \<Rightarrow> fifo \<Rightarrow> bool" where
  ff_arrive: "fifo_step f (f\<lparr>ff_waiting := ff_waiting f @ [j], ff_arrived := ff_arrived f @ [j]\<rparr>)"
| ff_begin: "ff_running f = None \<Longrightarrow> ff_waiting f = j # w \<Longrightarrow>
    fifo_step f (f\<lparr>ff_running := Some j, ff_waiting := w, ff_begun := ff_begun f @ [j]\<rparr>)"
| ff_end: "ff_running f = Some j \<Longrightarrow> fifo_step f (f\<lparr>ff_running := None\<rparr>)"

inductive_simps fifo_step_iff: "fifo_step f g"

definition fifo_init :: "fifo \<Rightarrow> bool" where
  "fifo_init f \<longleftrightarrow> f = \<lparr>ff_running = None, ff_waiting = [], ff_arrived = [], ff_begun = []\<rparr>"

definition fifo_inv :: "fifo \<Rightarrow> bool" where
  "fifo_inv f \<longleftrightarrow> ff_arrived f = ff_begun f @ ff_waiting f \<and>
     (\<forall>j. ff_running f = Some j \<longrightarrow> ff_begun f \<noteq> [] \<and> last (ff_begun f) = j)"

interpretation fifo: inductive_invariant fifo_init fifo_step fifo_inv
proof
  show "fifo_init f \<Longrightarrow> fifo_inv f" for f by (simp add: fifo_init_def fifo_inv_def)
  show "fifo_step f g \<Longrightarrow> fifo_inv f \<Longrightarrow> fifo_inv g" for f g
    by (auto simp: fifo_step_iff fifo_inv_def)
qed

definition job_of :: "('cfg, 'ib, 'l) server \<Rightarrow> nat \<Rightarrow> job" where
  "job_of s c = (c, case srv_conns s c of ConnQueued rid \<Rightarrow> rid | ConnEvaluating rid \<Rightarrow> rid | _ \<Rightarrow> 0)"

definition fifo_abs :: "('cfg, 'ib, 'l) server \<Rightarrow> fifo" where
  "fifo_abs s = \<lparr>ff_running = map_option (job_of s) (srv_lock s), ff_waiting = map (job_of s) (srv_queue s),
     ff_arrived = srv_enq s, ff_begun = srv_acq s\<rparr>"

lemma job_of_other:
  assumes "srv_conns t = (srv_conns s)(c := p)" and "c \<notin> set cs"
  shows "map (job_of t) cs = map (job_of s) cs"
  using assms by (auto simp: job_of_def)

lemma not_queued:
  assumes "lock_inv s" and "\<And>rid. srv_conns s c \<noteq> ConnQueued rid"
  shows "c \<notin> set (srv_queue s)"
  using assms by (auto simp: lock_inv_def queue_ok_def)

lemma not_holder:
  assumes "lock_inv s" and "\<And>rid. srv_conns s c \<noteq> ConnEvaluating rid"
  shows "srv_lock s \<noteq> Some c"
  using assms by (auto simp: lock_inv_def lock_ok_def)

lemma fifo_abs_same:
  assumes "srv_conns t = srv_conns s" and "srv_lock t = srv_lock s" and "srv_queue t = srv_queue s"
    and "srv_enq t = srv_enq s" and "srv_acq t = srv_acq s"
  shows "fifo_abs t = fifo_abs s"
proof -
  have "job_of t = job_of s" using assms(1) by (simp add: fun_eq_iff job_of_def)
  with assms show ?thesis by (simp add: fifo_abs_def)
qed

lemma map_option_job:
  assumes "srv_conns t = (srv_conns s)(c := p)" and "h \<noteq> Some c"
  shows "map_option (job_of t) h = map_option (job_of s) h"
  using assms by (cases h) (auto simp: job_of_def)

lemma fifo_abs_ended:
  assumes "lock_inv s" and "srv_conns s c = ConnReading" and "srv_conns t = (srv_conns s)(c := p)"
    and "srv_lock t = srv_lock s" and "srv_queue t = srv_queue s" and "srv_enq t = srv_enq s"
    and "srv_acq t = srv_acq s"
  shows "fifo_abs t = fifo_abs s"
proof -
  have "c \<notin> set (srv_queue s)" and "srv_lock s \<noteq> Some c"
    using assms(1,2) by (simp_all add: not_queued not_holder)
  then show ?thesis
    using assms(4-7) job_of_other [OF assms(3)] map_option_job [OF assms(3)] by (simp add: fifo_abs_def)
qed

lemma server_simulates:
  "server_step s t \<Longrightarrow> lock_inv s \<Longrightarrow> fifo_step (fifo_abs s) (fifo_abs t) \<or> fifo_abs t = fifo_abs s"
proof (induction rule: server_step.induct)
  case (srv_stop s c)
  then show ?case by (intro disjI2 fifo_abs_ended) simp_all
next
  case (srv_close s c)
  then show ?case by (intro disjI2 fifo_abs_ended) simp_all
next
  case (srv_submit s c rid)
  let ?t = "s\<lparr>srv_conns := (srv_conns s)(c := ConnQueued rid),
      srv_queue := srv_queue s @ [c], srv_enq := srv_enq s @ [(c, rid)]\<rparr>"
  have conns: "srv_conns ?t = (srv_conns s)(c := ConnQueued rid)" by simp
  have "c \<notin> set (srv_queue s)" and "srv_lock s \<noteq> Some c"
    using srv_submit by (simp_all add: not_queued not_holder)
  then have "fifo_abs ?t = (fifo_abs s)\<lparr>ff_waiting := ff_waiting (fifo_abs s) @ [(c, rid)],
      ff_arrived := ff_arrived (fifo_abs s) @ [(c, rid)]\<rparr>"
    using job_of_other [OF conns, of "srv_queue s"] map_option_job [OF conns, of "srv_lock s"]
    by (simp add: fifo_abs_def job_of_def)
  with ff_arrive [of "fifo_abs s" "(c, rid)"] show ?case by (simp only: simp_thms)
next
  case (srv_acquire s c q rid)
  let ?t = "s\<lparr>srv_conns := (srv_conns s)(c := ConnEvaluating rid), srv_lock := Some c,
      srv_queue := q, srv_acq := srv_acq s @ [(c, rid)],
      srv_ctx := set_display_sink (Some (Sink c rid)) (srv_ctx s)\<rparr>"
  have conns: "srv_conns ?t = (srv_conns s)(c := ConnEvaluating rid)" by simp
  have "c \<notin> set q" using srv_acquire by (simp add: lock_inv_def queue_ok_def)
  then have t: "fifo_abs ?t = (fifo_abs s)\<lparr>ff_running := Some (c, rid), ff_waiting := map (job_of s) q,
      ff_begun := ff_begun (fifo_abs s) @ [(c, rid)]\<rparr>"
    using job_of_other [OF conns, of q] by (simp add: fifo_abs_def job_of_def)
  have "fifo_step (fifo_abs s) ((fifo_abs s)\<lparr>ff_running := Some (c, rid), ff_waiting := map (job_of s) q,
      ff_begun := ff_begun (fifo_abs s) @ [(c, rid)]\<rparr>)"
    using srv_acquire.hyps by (intro ff_begin) (simp_all add: fifo_abs_def job_of_def)
  with t show ?case by (simp only: simp_thms)
next
  case (srv_finish s c rid outcome ctx')
  let ?t = "s\<lparr>srv_conns := (srv_conns s)(c := ConnReading), srv_lock := None,
      srv_ctx := set_display_sink None ctx',
      srv_out := (srv_out s)(c := srv_out s c @ [EvalResult rid outcome])\<rparr>"
  have conns: "srv_conns ?t = (srv_conns s)(c := ConnReading)" by simp
  have "c \<notin> set (srv_queue s)" and "srv_lock s = Some c"
    using srv_finish by (simp_all add: not_queued lock_inv_def lock_ok_evaluating(1))
  then have "fifo_abs ?t = (fifo_abs s)\<lparr>ff_running := None\<rparr>"
    and "ff_running (fifo_abs s) = Some (job_of s c)"
    using job_of_other [OF conns] by (simp_all add: fifo_abs_def)
  with ff_end [of "fifo_abs s" "job_of s c"] show ?case by (simp only: simp_thms)
qed (rule disjI2, rule fifo_abs_same; simp)+

interpretation fifo_server: simulation server_init server_step lock_inv fifo_init fifo_step fifo_abs
proof
  show "server_init s \<Longrightarrow> fifo_init (fifo_abs s)" for s :: "('cfg, 'ib, 'l) server"
    by (simp add: server_init_def fifo_init_def fifo_abs_def)
qed (fact server_simulates)

section \<open>What the running server guarantees\<close>

text \<open>
  C11.  Display output cannot go astray: in every reachable state of the concurrent daemon, a
  connection that is evaluating is the only one, whatever is displayed meanwhile goes to it under
  its request's id, and nothing has been printed on the daemon's own stdout.
\<close>

theorem server_display_safety:
  assumes "reachable server_init server_step s" and "srv_conns s c = ConnEvaluating rid"
  shows "display_output (srv_ctx s) msg = ToSink c rid msg \<and>
    (\<forall>c' rid'. srv_conns s c' = ConnEvaluating rid' \<longrightarrow> c' = c \<and> rid' = rid) \<and> srv_stdout s = []"
proof -
  have ok: "lock_ok s" using streams.always [OF assms(1)] by (simp add: lock_inv_def)
  have "display_output (srv_ctx s) msg = ToSink c rid msg"
    by (rule lock_ok_evaluating(3) [OF ok assms(2)])
  moreover have "c' = c \<and> rid' = rid" if "srv_conns s c' = ConnEvaluating rid'" for c' rid'
  proof -
    have "c' = c" by (rule lock_ok_evaluating(4) [OF ok assms(2) that])
    with that assms(2) show ?thesis by simp
  qed
  moreover have "srv_stdout s = []" using ok by (simp add: lock_ok_def)
  ultimately show ?thesis by blast
qed

text \<open>
  Every connection's response stream is well formed, however the connections interleave: in
  every reachable state it splits into answers, each evaluation's displays and result being
  contiguous and of one id, and a connection that is not evaluating has no display left open.
\<close>

lemma server_streams_well_formed:
  assumes "reachable server_init server_step s"
  shows "(\<exists>q. stream_run None (srv_out s c) = Some q) \<and>
    ((\<exists>rid. srv_conns s c = ConnEvaluating rid) \<or> stream_run None (srv_out s c) = Some None)"
proof -
  from streams.both.always [OF assms] have "stream_at (srv_conns s c) (srv_out s c)"
    by (simp add: stream_ok_at)
  then show ?thesis by (cases "srv_conns s c") auto
qed

text \<open>
  C13.  The concurrent daemon refines a first-in first-out queue: every reachable state abstracts to
  a reachable state of the queue, so evaluations begin exactly in the order they were submitted,
  one at a time.
\<close>

theorem server_refines_fifo:
  assumes "reachable server_init server_step s"
  shows "reachable fifo_init fifo_step (fifo_abs s) \<and>
    srv_enq s = srv_acq s @ map (job_of s) (srv_queue s)"
proof -
  have r: "reachable fifo_init fifo_step (fifo_abs s)" by (rule fifo_server.refines [OF assms])
  with fifo.always [OF r] show ?thesis by (simp add: fifo_inv_def fifo_abs_def)
qed

text \<open>Two connections: the first evaluates and has displayed a text, the second waits.\<close>

definition sample_server :: "(unit, unit, unit) server" where
  "sample_server = \<lparr>srv_ctx = d_ctx sample_daemon, srv_conns = \<lambda>_. ConnReading, srv_lock = None,
     srv_queue = [], srv_out = \<lambda>_. [], srv_stdout = [], srv_enq = [], srv_acq = []\<rparr>"

definition sample_busy :: "(unit, unit, unit) server" where
  "sample_busy = \<lparr>srv_ctx = set_display_sink (Some (Sink 4 9)) (d_ctx sample_daemon),
     srv_conns = (\<lambda>_. ConnReading)(4 := ConnEvaluating 9, 2 := ConnQueued 1), srv_lock = Some 4,
     srv_queue = [2], srv_out = (\<lambda>_. [])(4 := [Display 9 (lit ''x'')]), srv_stdout = [],
     srv_enq = [(4, 9), (2, 1)], srv_acq = [(4, 9)]\<rparr>"

lemma sample_busy_reachable: "reachable server_init server_step sample_busy"
proof -
  let ?s0 = sample_server
  let ?s1 = "?s0\<lparr>srv_conns := (\<lambda>_. ConnReading)(4 := ConnQueued 9), srv_queue := [4], srv_enq := [(4, 9)]\<rparr>"
  let ?s2 = "?s1\<lparr>srv_conns := (\<lambda>_. ConnReading)(4 := ConnQueued 9, 2 := ConnQueued 1), srv_queue := [4, 2],
     srv_enq := [(4, 9), (2, 1)]\<rparr>"
  let ?s3 = "?s2\<lparr>srv_conns := (\<lambda>_. ConnReading)(4 := ConnEvaluating 9, 2 := ConnQueued 1), srv_lock := Some 4,
     srv_queue := [2], srv_acq := [(4, 9)],
     srv_ctx := set_display_sink (Some (Sink 4 9)) (srv_ctx ?s0)\<rparr>"
  have "reachable server_init server_step ?s0"
    by (rule reach_init) (simp add: server_init_def sample_server_def sample_daemon_def cli_ctx_new_def)
  moreover have "server_step ?s0 ?s1"
    using srv_submit [of ?s0 4 9] by (simp add: sample_server_def)
  moreover have "server_step ?s1 ?s2"
    using srv_submit [of ?s1 2 1] by (simp add: sample_server_def)
  moreover have "server_step ?s2 ?s3"
    using srv_acquire [of ?s2 4 "[2]" 9] by (simp add: sample_server_def fun_upd_twist)
  moreover have "server_step ?s3 sample_busy"
    using srv_display [of ?s3 4 9 "lit ''x''"]
    by (simp add: sample_server_def sample_busy_def display_output_def display_responses_def fun_upd_def
        cong: if_cong)
  ultimately show ?thesis by (blast intro: reach_step)
qed

theorem server_display_safety_witness: "display_output (srv_ctx sample_busy) [33] = ToSink 4 9 [33]"
  using server_display_safety [OF sample_busy_reachable, of 4 9] by (simp add: sample_busy_def)

theorem server_refines_fifo_witness: "map (job_of sample_busy) [2] = [(2, 1)]"
  using server_refines_fifo [OF sample_busy_reachable] by (simp add: sample_busy_def)

end
