(* ===== verification/Zs_Serial.thy ===== *)
theory Zs_Serial
  imports Zs_Server
begin

text \<open>
  Serialisability of the daemon (\<open>handle_conn\<close> and \<open>eval_request\<close> of \<open>src/src/daemon.rs\<close>): the
  connections run concurrently over the real evaluator, each with its list of requests, and the
  outcome is that of one request after the other.

  The steps are the stretches between two awaits.  An evaluation takes the lock and sets the sink,
  displays its texts one by one through whatever sink is set, and stores its environment and
  releases the lock.  \<open>Reset\<close> and \<open>DumpEnv\<close> do not take the lock in the code; the runs considered
  here are those in which they arrive while no evaluation is under way.
\<close>

section \<open>States and steps\<close>

datatype ('e, 'cfg, 'ib, 'l) run_phase =
    RunIdle
  | RunQueued u64 rstr bool
  | RunEval u64 rstr bool "rstr list" outcome "'e option" 'e "('cfg, 'ib, 'l) cli_ctx"
  | RunEnded

record ('e, 'cfg, 'ib, 'l) conc =
  cc_daemon :: "('e, 'cfg, 'ib, 'l) daemon"
  cc_ienv :: "nat \<Rightarrow> 'e option"
  cc_phase :: "nat \<Rightarrow> ('e, 'cfg, 'ib, 'l) run_phase"
  cc_input :: "nat \<Rightarrow> request list"
  cc_out :: "nat \<Rightarrow> response list"
  cc_lock :: "nat option"
  cc_queue :: "nat list"
  cc_log :: "(nat \<times> request) list"
  cc_submitted :: "(nat \<times> request) list"

fun reads_env :: "request \<Rightarrow> bool" where
  "reads_env Reset = True"
| "reads_env DumpEnv = True"
| "reads_env req = False"

inductive conc_step ::
  "('e, 'cfg, 'ib, 'l) engine \<Rightarrow> ('e, 'cfg, 'ib, 'l) conc \<Rightarrow> ('e, 'cfg, 'ib, 'l) conc \<Rightarrow> bool"
  for eng where
  conc_simple: "cc_phase s c = RunIdle \<Longrightarrow> cc_input s c = req # reqs \<Longrightarrow> \<not> is_eval req \<Longrightarrow>
    (reads_env req \<Longrightarrow> cc_lock s = None) \<Longrightarrow>
    handle_request eng c req (cc_ienv s c) (cc_daemon s) = (rs, ienv', d', go) \<Longrightarrow>
    conc_step eng s (s\<lparr>cc_daemon := d', cc_ienv := (cc_ienv s)(c := ienv'),
      cc_phase := (cc_phase s)(c := if go then RunIdle else RunEnded), cc_input := (cc_input s)(c := reqs),
      cc_out := (cc_out s)(c := cc_out s c @ rs), cc_log := cc_log s @ [(c, req)]\<rparr>)"
| conc_submit: "cc_phase s c = RunIdle \<Longrightarrow> cc_input s c = Eval rid source isolated # reqs \<Longrightarrow>
    conc_step eng s (s\<lparr>cc_phase := (cc_phase s)(c := RunQueued rid source isolated),
      cc_input := (cc_input s)(c := reqs), cc_queue := cc_queue s @ [c],
      cc_submitted := cc_submitted s @ [(c, Eval rid source isolated)]\<rparr>)"
| conc_acquire: "cc_lock s = None \<Longrightarrow> cc_queue s = c # q \<Longrightarrow> cc_phase s c = RunQueued rid source isolated \<Longrightarrow>
    ctx = set_display_sink (Some (Sink c rid)) (d_ctx (cc_daemon s)) \<Longrightarrow>
    run_evaluation eng source isolated (cc_ienv s c) (d_env (cc_daemon s)) ctx = (texts, r, ienv', env', ctx') \<Longrightarrow>
    conc_step eng s (s\<lparr>cc_daemon := (cc_daemon s)\<lparr>d_ctx := ctx\<rparr>,
      cc_phase := (cc_phase s)(c :=
        RunEval rid source isolated texts (render_result (eng_display eng) r) ienv' env' ctx'),
      cc_lock := Some c, cc_queue := q\<rparr>)"
| conc_display: "cc_phase s c = RunEval rid source isolated (msg # texts) outcome ienv' env' ctx' \<Longrightarrow>
    conc_step eng s (s\<lparr>cc_phase := (cc_phase s)(c := RunEval rid source isolated texts outcome ienv' env' ctx'),
      cc_out := (\<lambda>k. cc_out s k @ display_responses k [display_output (d_ctx (cc_daemon s)) msg])\<rparr>)"
| conc_finish: "cc_phase s c = RunEval rid source isolated [] outcome ienv' env' ctx' \<Longrightarrow>
    conc_step eng s (s\<lparr>cc_daemon := (cc_daemon s)\<lparr>d_env := env', d_ctx := set_display_sink None ctx'\<rparr>,
      cc_ienv := (cc_ienv s)(c := ienv'), cc_phase := (cc_phase s)(c := RunIdle),
      cc_out := (cc_out s)(c := cc_out s c @ [EvalResult rid outcome]), cc_lock := None,
      cc_log := cc_log s @ [(c, Eval rid source isolated)]\<rparr>)"

definition conc_init ::
  "('e, 'cfg, 'ib, 'l) daemon \<Rightarrow> (nat \<Rightarrow> request list) \<Rightarrow> ('e, 'cfg, 'ib, 'l) conc \<Rightarrow> bool" where
  "conc_init d0 inputs s \<longleftrightarrow>
     cc_daemon s = d0 \<and> cc_ienv s = (\<lambda>_. None) \<and> cc_phase s = (\<lambda>_. RunIdle) \<and> cc_input s = inputs \<and>
     cc_out s = (\<lambda>_. []) \<and> cc_lock s = None \<and> cc_queue s = [] \<and> cc_log s = [] \<and> cc_submitted s = []"

section \<open>The sequential reference\<close>

text \<open>One request after the other, each answered on its own connection.\<close>

definition serve_one ::
  "('e, 'cfg, 'ib, 'l) engine \<Rightarrow> nat \<times> request \<Rightarrow>
     ('e, 'cfg, 'ib, 'l) daemon \<times> (nat \<Rightarrow> 'e option) \<times> (nat \<Rightarrow> response list) \<Rightarrow>
     ('e, 'cfg, 'ib, 'l) daemon \<times> (nat \<Rightarrow> 'e option) \<times> (nat \<Rightarrow> response list)" where
  "serve_one eng job st =
     (case (job, st) of ((c, req), (d, ienvs, out)) \<Rightarrow>
        (case handle_request eng c req (ienvs c) d of
           (rs, ienv', d', go) \<Rightarrow> (d', ienvs(c := ienv'), out(c := out c @ rs))))"

definition serve_log ::
  "('e, 'cfg, 'ib, 'l) engine \<Rightarrow> ('e, 'cfg, 'ib, 'l) daemon \<Rightarrow> (nat \<times> request) list \<Rightarrow>
     ('e, 'cfg, 'ib, 'l) daemon \<times> (nat \<Rightarrow> 'e option) \<times> (nat \<Rightarrow> response list)" where
  "serve_log eng d0 log = fold (serve_one eng) log (d0, \<lambda>_. None, \<lambda>_. [])"

lemma serve_log_snoc: "serve_log eng d0 (log @ [job]) = serve_one eng job (serve_log eng d0 log)"
  by (simp add: serve_log_def)

definition of_conn :: "nat \<Rightarrow> (nat \<times> request) list \<Rightarrow> request list" where
  "of_conn c log = map snd (filter (\<lambda>job. fst job = c) log)"

lemma of_conn_snoc [simp]: "of_conn c (log @ [(k, req)]) = of_conn c log @ (if k = c then [req] else [])"
  by (simp add: of_conn_def)

section \<open>Lock, queue and inputs\<close>

fun evaluating :: "('e, 'cfg, 'ib, 'l) run_phase \<Rightarrow> bool" where
  "evaluating (RunEval rid source isolated texts outcome ienv' env' ctx') = True"
| "evaluating p = False"

fun current :: "('e, 'cfg, 'ib, 'l) run_phase \<Rightarrow> request list" where
  "current (RunQueued rid source isolated) = [Eval rid source isolated]"
| "current (RunEval rid source isolated texts outcome ienv' env' ctx') = [Eval rid source isolated]"
| "current p = []"

text \<open>The jobs under way, in queue order.\<close>

definition jobs_of :: "(nat \<Rightarrow> ('e, 'cfg, 'ib, 'l) run_phase) \<Rightarrow> nat list \<Rightarrow> (nat \<times> request) list" where
  "jobs_of phase cs = concat (map (\<lambda>c. map (Pair c) (current (phase c))) cs)"

lemma jobs_of_simps [simp]:
  "jobs_of phase [] = []"
  "jobs_of phase (c # cs) = map (Pair c) (current (phase c)) @ jobs_of phase cs"
  "jobs_of phase (cs @ ds) = jobs_of phase cs @ jobs_of phase ds"
  "c \<notin> set cs \<Longrightarrow> jobs_of (phase(c := p)) cs = jobs_of phase cs"
  by (induction cs) (auto simp: jobs_of_def)

definition holder_inv :: "('e, 'cfg, 'ib, 'l) conc \<Rightarrow> bool" where
  "holder_inv s \<longleftrightarrow>
     (\<forall>c. evaluating (cc_phase s c) \<longleftrightarrow> cc_lock s = Some c) \<and> distinct (cc_queue s) \<and>
     (\<forall>c. c \<in> set (cc_queue s) \<longleftrightarrow> (\<exists>rid source isolated. cc_phase s c = RunQueued rid source isolated))"

definition pending_jobs :: "('e, 'cfg, 'ib, 'l) conc \<Rightarrow> (nat \<times> request) list" where
  "pending_jobs s = jobs_of (cc_phase s) ((case cc_lock s of None \<Rightarrow> [] | Some c \<Rightarrow> [c]) @ cc_queue s)"

definition order_inv :: "(nat \<Rightarrow> request list) \<Rightarrow> ('e, 'cfg, 'ib, 'l) conc \<Rightarrow> bool" where
  "order_inv inputs s \<longleftrightarrow>
     (\<forall>c. of_conn c (cc_log s) @ current (cc_phase s c) @ cc_input s c = inputs c) \<and>
     filter (\<lambda>job. is_eval (snd job)) (cc_log s) @ pending_jobs s = cc_submitted s"

lemma holder_inv_step: "conc_step eng s t \<Longrightarrow> holder_inv s \<Longrightarrow> holder_inv t"
proof (induction rule: conc_step.induct)
  case (conc_simple s c req reqs rs ienv' d' go)
  have "cc_lock s \<noteq> Some c"
    using conc_simple.prems conc_simple.hyps(1) unfolding holder_inv_def by (auto dest!: spec [of _ c])
  with conc_simple.prems conc_simple.hyps(1) show ?case by (auto simp: holder_inv_def)
next
  case (conc_submit s c rid source isolated reqs)
  then have "c \<notin> set (cc_queue s)" and "cc_lock s \<noteq> Some c"
    unfolding holder_inv_def by (auto dest!: spec [of _ c])
  with conc_submit show ?case by (auto simp: holder_inv_def)
qed (auto simp: holder_inv_def split: if_splits)

lemma idle_free:
  assumes "holder_inv s" and "cc_phase s c = RunIdle"
  shows "c \<notin> set (cc_queue s)" and "cc_lock s \<noteq> Some c"
  using assms unfolding holder_inv_def by (auto dest!: spec [of _ c])

lemma running_free:
  assumes "holder_inv s" and "evaluating (cc_phase s c)"
  shows "c \<notin> set (cc_queue s)" and "cc_lock s = Some c"
  using assms unfolding holder_inv_def by (auto dest!: spec [of _ c])

lemma order_invD:
  assumes "order_inv inputs s"
  shows "of_conn c (cc_log s) @ current (cc_phase s c) @ cc_input s c = inputs c"
    and "filter (\<lambda>job. is_eval (snd job)) (cc_log s) @ pending_jobs s = cc_submitted s"
  using assms by (simp_all add: order_inv_def)

lemma order_inv_step: "conc_step eng s t \<Longrightarrow> holder_inv s \<Longrightarrow> order_inv inputs s \<Longrightarrow> order_inv inputs t"
proof (induction rule: conc_step.induct)
  case (conc_simple s c req reqs rs ienv' d' go)
  define p where "p = (if go then RunIdle else RunEnded :: ('a, 'b, 'c, 'd) run_phase)"
  have "current p = []" by (simp add: p_def)
  moreover have "pending_jobs (s\<lparr>cc_phase := (cc_phase s)(c := p)\<rparr>) = pending_jobs s"
    using idle_free [OF conc_simple.prems(1) conc_simple.hyps(1)]
    by (simp add: pending_jobs_def split: option.split)
  ultimately show ?case
    using order_invD [OF conc_simple.prems(2)] order_invD(1) [OF conc_simple.prems(2), of c] conc_simple.hyps(1-3)
    by (simp add: order_inv_def pending_jobs_def p_def [symmetric])
next
  case (conc_submit s c rid source isolated reqs)
  note free = idle_free [OF conc_submit.prems(1) conc_submit.hyps(1)]
  have "jobs_of ((cc_phase s)(c := RunQueued rid source isolated))
      ((case cc_lock s of None \<Rightarrow> [] | Some k \<Rightarrow> [k]) @ cc_queue s @ [c]) =
      pending_jobs s @ [(c, Eval rid source isolated)]"
    using free by (simp add: pending_jobs_def split: option.split)
  then show ?case
    using order_invD [OF conc_submit.prems(2)] order_invD(1) [OF conc_submit.prems(2), of c] conc_submit.hyps
    by (simp add: order_inv_def pending_jobs_def)
next
  case (conc_acquire s c q rid source isolated ctx texts r ienv' env' ctx')
  have "c \<notin> set q" using conc_acquire.prems(1) conc_acquire.hyps(2) by (simp add: holder_inv_def)
  then show ?case
    using order_invD [OF conc_acquire.prems(2)] order_invD(1) [OF conc_acquire.prems(2), of c] conc_acquire.hyps(1-3)
    by (simp add: order_inv_def pending_jobs_def)
next
  case (conc_display s c rid source isolated msg texts outcome ienv' env' ctx')
  have "evaluating (cc_phase s c)" using conc_display.hyps by simp
  note free = running_free [OF conc_display.prems(1) this]
  show ?case
    using free order_invD [OF conc_display.prems(2)] order_invD(1) [OF conc_display.prems(2), of c] conc_display.hyps
    by (simp add: order_inv_def pending_jobs_def)
next
  case (conc_finish s c rid source isolated outcome ienv' env' ctx')
  have "evaluating (cc_phase s c)" using conc_finish.hyps by simp
  note free = running_free [OF conc_finish.prems(1) this]
  show ?case
    using free order_invD [OF conc_finish.prems(2)] order_invD(1) [OF conc_finish.prems(2), of c] conc_finish.hyps
    by (simp add: order_inv_def pending_jobs_def)
qed

section \<open>The invariant\<close>

text \<open>
  Between evaluations the state is the reference's after the log; during one, it is that with the
  sink redirected and the evaluation's first displays already sent.
\<close>

definition mid_evaluation ::
  "('e, 'cfg, 'ib, 'l) engine \<Rightarrow> ('e, 'cfg, 'ib, 'l) daemon \<Rightarrow> (nat \<Rightarrow> response list) \<Rightarrow>
     ('e, 'cfg, 'ib, 'l) conc \<Rightarrow> nat \<Rightarrow> bool" where
  "mid_evaluation eng d out s c \<longleftrightarrow>
     (\<exists>rid source isolated texts r ienv' env' ctx' sent.
        cc_phase s c = RunEval rid source isolated texts (render_result (eng_display eng) r) ienv' env' ctx' \<and>
        run_evaluation eng source isolated (cc_ienv s c) (d_env d)
          (set_display_sink (Some (Sink c rid)) (d_ctx d)) = (sent @ texts, r, ienv', env', ctx') \<and>
        cc_daemon s = d\<lparr>d_ctx := set_display_sink (Some (Sink c rid)) (d_ctx d)\<rparr> \<and>
        cc_out s = out(c := out c @ map (Display rid) sent))"

definition serial_inv ::
  "('e, 'cfg, 'ib, 'l) engine \<Rightarrow> ('e, 'cfg, 'ib, 'l) daemon \<Rightarrow> ('e, 'cfg, 'ib, 'l) conc \<Rightarrow> bool" where
  "serial_inv eng d0 s \<longleftrightarrow>
     (\<exists>d out. serve_log eng d0 (cc_log s) = (d, cc_ienv s, out) \<and>
        (case cc_lock s of
           None \<Rightarrow> cc_daemon s = d \<and> cc_out s = out
         | Some c \<Rightarrow> mid_evaluation eng d out s c))"

lemma handle_request_sink:
  assumes "\<not> is_eval req" and "\<not> reads_env req"
  shows "handle_request eng c req ienv (d\<lparr>d_ctx := set_display_sink sk (d_ctx d)\<rparr>) =
    (case handle_request eng c req ienv d of
       (rs, ienv', d', go) \<Rightarrow> (rs, ienv', d'\<lparr>d_ctx := set_display_sink sk (d_ctx d')\<rparr>, go))"
  using assms by (cases req) (simp_all add: handle_request_def set_display_sink_def)

lemma handle_request_plain:
  assumes "handle_request eng c req ienv d = (rs, ienv', d', go)" and "\<not> is_eval req" and "\<not> reads_env req"
  shows "d_env d' = d_env d \<and> d_ctx d' = d_ctx d \<and> ienv' = ienv"
  using assms by (cases req) (auto simp: handle_request_def)

lemma serial_inv_step: "conc_step eng s t \<Longrightarrow> holder_inv s \<Longrightarrow> serial_inv eng d0 s \<Longrightarrow> serial_inv eng d0 t"
proof (induction rule: conc_step.induct)
  case (conc_simple s c req reqs rs ienv' d' go)
  obtain d out where log: "serve_log eng d0 (cc_log s) = (d, cc_ienv s, out)"
    and lock: "case cc_lock s of None \<Rightarrow> cc_daemon s = d \<and> cc_out s = out | Some k \<Rightarrow> mid_evaluation eng d out s k"
    using conc_simple.prems(2) unfolding serial_inv_def by blast
  obtain rs1 ienv1 d1 go1 where h: "handle_request eng c req (cc_ienv s c) d = (rs1, ienv1, d1, go1)"
    by (metis prod_cases4)
  have log': "serve_log eng d0 (cc_log s @ [(c, req)]) = (d1, (cc_ienv s)(c := ienv1), out(c := out c @ rs1))"
    using log h by (simp add: serve_log_snoc serve_one_def)
  show ?case
  proof (cases "cc_lock s")
    case None
    then have "cc_daemon s = d" "cc_out s = out" using lock by simp_all
    with h conc_simple.hyps(5) have "rs = rs1" "ienv' = ienv1" "d' = d1" by auto
    with log' None \<open>cc_out s = out\<close> show ?thesis by (simp add: serial_inv_def)
  next
    case (Some k)
    then have plain: "\<not> is_eval req" "\<not> reads_env req" using conc_simple.hyps(3,4) by auto
    have kc: "k \<noteq> c" using idle_free(2) [OF conc_simple.prems(1) conc_simple.hyps(1)] Some by auto
    have same: "d_env d1 = d_env d" "d_ctx d1 = d_ctx d" "ienv1 = cc_ienv s c"
      using handle_request_plain [OF h plain] by auto
    from lock Some obtain rid source isolated texts r ienvk envk ctxk sent where k:
      "cc_phase s k = RunEval rid source isolated texts (render_result (eng_display eng) r) ienvk envk ctxk"
      "run_evaluation eng source isolated (cc_ienv s k) (d_env d)
          (set_display_sink (Some (Sink k rid)) (d_ctx d)) = (sent @ texts, r, ienvk, envk, ctxk)"
      "cc_daemon s = d\<lparr>d_ctx := set_display_sink (Some (Sink k rid)) (d_ctx d)\<rparr>"
      "cc_out s = out(k := out k @ map (Display rid) sent)"
      by (auto simp: mid_evaluation_def)
    have new: "rs = rs1" "ienv' = ienv1" "d' = d1\<lparr>d_ctx := set_display_sink (Some (Sink k rid)) (d_ctx d1)\<rparr>"
      using conc_simple.hyps(5) h by (auto simp: k(3) handle_request_sink [OF plain])
    have "mid_evaluation eng d1 (out(c := out c @ rs))
        (s\<lparr>cc_daemon := d', cc_ienv := (cc_ienv s)(c := ienv'),
           cc_phase := (cc_phase s)(c := if go then RunIdle else RunEnded), cc_input := (cc_input s)(c := reqs),
           cc_out := (cc_out s)(c := cc_out s c @ rs), cc_log := cc_log s @ [(c, req)]\<rparr>) k"
      using k kc new same by (simp add: mid_evaluation_def fun_upd_twist)
    with log' Some new show ?thesis by (auto simp: serial_inv_def)
  qed
next
  case (conc_submit s c rid source isolated reqs)
  have "cc_lock s \<noteq> Some c" by (rule idle_free [OF conc_submit.prems(1) conc_submit.hyps(1)])
  moreover have "mid_evaluation eng d out (s\<lparr>cc_phase := (cc_phase s)(c := RunQueued rid source isolated),
      cc_input := (cc_input s)(c := reqs), cc_queue := cc_queue s @ [c],
      cc_submitted := cc_submitted s @ [(c, Eval rid source isolated)]\<rparr>) k = mid_evaluation eng d out s k"
    if "k \<noteq> c" for d out k using that by (simp add: mid_evaluation_def)
  ultimately show ?case using conc_submit.prems(2)
    by (cases "cc_lock s") (auto simp: serial_inv_def)
next
  case (conc_acquire s c q rid source isolated ctx texts r ienv' env' ctx')
  then show ?case by (auto simp: serial_inv_def mid_evaluation_def)
next
  case (conc_display s c rid source isolated msg texts outcome ienv' env' ctx')
  have "evaluating (cc_phase s c)" using conc_display.hyps by simp
  then have lock: "cc_lock s = Some c" by (rule running_free [OF conc_display.prems(1)])
  from conc_display.prems(2) lock conc_display.hyps obtain d out r sent where
    log: "serve_log eng d0 (cc_log s) = (d, cc_ienv s, out)"
    and outcome: "outcome = render_result (eng_display eng) r"
    and run: "run_evaluation eng source isolated (cc_ienv s c) (d_env d)
          (set_display_sink (Some (Sink c rid)) (d_ctx d)) = (sent @ msg # texts, r, ienv', env', ctx')"
    and d: "cc_daemon s = d\<lparr>d_ctx := set_display_sink (Some (Sink c rid)) (d_ctx d)\<rparr>"
    and out: "cc_out s = out(c := out c @ map (Display rid) sent)"
    by (auto simp: serial_inv_def mid_evaluation_def)
  have "(\<lambda>k. cc_out s k @ display_responses k [display_output (d_ctx (cc_daemon s)) msg]) =
      out(c := out c @ map (Display rid) (sent @ [msg]))"
    by (simp add: fun_eq_iff out d display_output_sink display_responses_def)
  with log outcome run d lock show ?case
    by (auto simp: serial_inv_def mid_evaluation_def intro!: exI [of _ "sent @ [msg]"])
next
  case (conc_finish s c rid source isolated outcome ienv' env' ctx')
  have "evaluating (cc_phase s c)" using conc_finish.hyps by simp
  then have lock: "cc_lock s = Some c" by (rule running_free [OF conc_finish.prems(1)])
  from conc_finish.prems(2) lock conc_finish.hyps obtain d out r sent where
    log: "serve_log eng d0 (cc_log s) = (d, cc_ienv s, out)"
    and outcome: "outcome = render_result (eng_display eng) r"
    and run: "run_evaluation eng source isolated (cc_ienv s c) (d_env d)
          (set_display_sink (Some (Sink c rid)) (d_ctx d)) = (sent, r, ienv', env', ctx')"
    and d: "cc_daemon s = d\<lparr>d_ctx := set_display_sink (Some (Sink c rid)) (d_ctx d)\<rparr>"
    and out: "cc_out s = out(c := out c @ map (Display rid) sent)"
    by (auto simp: serial_inv_def mid_evaluation_def)
  have "handle_request eng c (Eval rid source isolated) (cc_ienv s c) d =
      (map (Display rid) sent @ [EvalResult rid outcome], ienv',
       d\<lparr>d_env := env', d_ctx := set_display_sink None ctx'\<rparr>, True)"
    by (simp add: handle_request_def eval_request_unfold [OF run] display_responses_own outcome)
  then have "serve_log eng d0 (cc_log s @ [(c, Eval rid source isolated)]) =
      (d\<lparr>d_env := env', d_ctx := set_display_sink None ctx'\<rparr>, (cc_ienv s)(c := ienv'),
       out(c := out c @ map (Display rid) sent @ [EvalResult rid outcome]))"
    using log by (simp add: serve_log_snoc serve_one_def)
  then show ?case by (simp add: serial_inv_def d out)
qed

definition conc_inv ::
  "('e, 'cfg, 'ib, 'l) engine \<Rightarrow> ('e, 'cfg, 'ib, 'l) daemon \<Rightarrow> (nat \<Rightarrow> request list) \<Rightarrow>
     ('e, 'cfg, 'ib, 'l) conc \<Rightarrow> bool" where
  "conc_inv eng d0 inputs s \<longleftrightarrow> order_inv inputs s \<and> serial_inv eng d0 s"

interpretation serial: relative_invariant "conc_init d0 inputs" "conc_step eng" holder_inv "conc_inv eng d0 inputs"
  for eng :: "('e, 'cfg, 'ib, 'l) engine" and d0 inputs
proof
  fix s :: "('e, 'cfg, 'ib, 'l) conc"
  assume "conc_init d0 inputs s"
  then show "holder_inv s" and "conc_inv eng d0 inputs s"
    by (simp_all add: conc_init_def holder_inv_def conc_inv_def order_inv_def of_conn_def pending_jobs_def
        serial_inv_def serve_log_def)
qed (auto simp: conc_inv_def intro: holder_inv_step order_inv_step serial_inv_step)


text \<open>Connection 2 pings while connection 4 evaluates.\<close>

definition sample_inputs :: "nat \<Rightarrow> request list" where
  "sample_inputs = (\<lambda>_. [])(4 := [Eval 9 (lit ''x'') False], 2 := [Ping])"

definition conc_0 :: "(rstr list, unit, unit, unit) conc" where
  "conc_0 = \<lparr>cc_daemon = sample_daemon, cc_ienv = \<lambda>_. None, cc_phase = \<lambda>_. RunIdle, cc_input = sample_inputs,
     cc_out = \<lambda>_. [], cc_lock = None, cc_queue = [], cc_log = [], cc_submitted = []\<rparr>"

definition conc_1 :: "(rstr list, unit, unit, unit) conc" where
  "conc_1 = conc_0\<lparr>cc_phase := (cc_phase conc_0)(4 := RunQueued 9 (lit ''x'') False),
     cc_input := (cc_input conc_0)(4 := []), cc_queue := cc_queue conc_0 @ [4],
     cc_submitted := cc_submitted conc_0 @ [(4, Eval 9 (lit ''x'') False)]\<rparr>"

definition conc_2 :: "(rstr list, unit, unit, unit) conc" where
  "conc_2 = (let ctx = set_display_sink (Some (Sink 4 9)) (d_ctx sample_daemon) in
     conc_1\<lparr>cc_daemon := (cc_daemon conc_1)\<lparr>d_ctx := ctx\<rparr>,
       cc_phase := (cc_phase conc_1)(4 := RunEval 9 (lit ''x'') False [lit ''x'']
         (render_result (eng_display sample_engine) (Ok (SStr (lit ''x'')))) None [lit ''x'', [7]] ctx),
       cc_lock := Some 4, cc_queue := []\<rparr>)"

definition conc_3 :: "(rstr list, unit, unit, unit) conc" where
  "conc_3 = conc_2\<lparr>cc_daemon := cc_daemon conc_2, cc_ienv := (cc_ienv conc_2)(2 := None),
     cc_phase := (cc_phase conc_2)(2 := if True then RunIdle else RunEnded),
     cc_input := (cc_input conc_2)(2 := []),
     cc_out := (cc_out conc_2)(2 := cc_out conc_2 2 @ [Pong]), cc_log := cc_log conc_2 @ [(2, Ping)]\<rparr>"

definition conc_4 :: "(rstr list, unit, unit, unit) conc" where
  "conc_4 = conc_3\<lparr>cc_phase := (cc_phase conc_3)(4 := RunEval 9 (lit ''x'') False []
       (render_result (eng_display sample_engine) (Ok (SStr (lit ''x'')))) None [lit ''x'', [7]]
       (set_display_sink (Some (Sink 4 9)) (d_ctx sample_daemon))),
     cc_out := (\<lambda>k. cc_out conc_3 k @
       display_responses k [display_output (d_ctx (cc_daemon conc_3)) (lit ''x'')])\<rparr>"

definition conc_5 :: "(rstr list, unit, unit, unit) conc" where
  "conc_5 = conc_4\<lparr>cc_daemon := (cc_daemon conc_4)\<lparr>d_env := [lit ''x'', [7]],
       d_ctx := set_display_sink None (set_display_sink (Some (Sink 4 9)) (d_ctx sample_daemon))\<rparr>,
     cc_ienv := (cc_ienv conc_4)(4 := None), cc_phase := (cc_phase conc_4)(4 := RunIdle),
     cc_out := (cc_out conc_4)(4 := cc_out conc_4 4 @ [EvalResult 9
       (render_result (eng_display sample_engine) (Ok (SStr (lit ''x''))))]), cc_lock := None,
     cc_log := cc_log conc_4 @ [(4, Eval 9 (lit ''x'') False)]\<rparr>"

lemmas conc_states = conc_0_def conc_1_def conc_2_def conc_3_def conc_4_def conc_5_def Let_def

lemma conc_0_init: "conc_init sample_daemon sample_inputs conc_0"
  by (simp add: conc_init_def conc_0_def)

lemma conc_states_step:
  "conc_step sample_engine conc_0 conc_1" "conc_step sample_engine conc_1 conc_2"
  "conc_step sample_engine conc_2 conc_3" "conc_step sample_engine conc_3 conc_4"
  "conc_step sample_engine conc_4 conc_5"
proof -
  show "conc_step sample_engine conc_0 conc_1"
    unfolding conc_1_def by (rule conc_submit) (simp_all add: conc_states sample_inputs_def)
  show "conc_step sample_engine conc_1 conc_2"
    unfolding conc_2_def Let_def
    by (rule conc_acquire [where r = "Ok (SStr (lit ''x''))"])
      (simp_all add: conc_states run_evaluation_def sample_engine_def sample_daemon_def)
  show "conc_step sample_engine conc_2 conc_3"
    unfolding conc_3_def
    by (rule conc_simple) (simp_all add: conc_states sample_inputs_def handle_request_def)
  show "conc_step sample_engine conc_3 conc_4"
    unfolding conc_4_def by (rule conc_display) (simp add: conc_states)
  show "conc_step sample_engine conc_4 conc_5"
    unfolding conc_5_def by (rule conc_finish) (simp add: conc_states)
qed

lemma sample_conc_reachable:
  "reachable (conc_init sample_daemon sample_inputs) (conc_step sample_engine) conc_5"
  using conc_states_step reach_init [where init = "conc_init sample_daemon sample_inputs", OF conc_0_init]
  by (meson reach_step)


end
