(* ===== verification/Zs_Replies.thy ===== *)
theory Zs_Replies
  imports Zs_Context
begin

text \<open>
  Actor calls and their replies, in every interleaving (\<open>do_actor_call\<close>, \<open>register_reply_sender\<close>
  and \<open>poll_replies\<close> of \<open>src/src/context.rs\<close>, the polling task of \<open>src/src/main.rs\<close>).

  The first part is one poll: which waiting call gets which reply.  The second part is a step
  relation in which any number of calls, the polling task and the network move in any order; it
  shows that replies never cross over, and that a reply polled before its call has registered is
  lost and leaves the call waiting.
\<close>

section \<open>The routing interface\<close>

text \<open>
  What a table of pending one-shot replies promises: routing a message takes its id out of the
  table and hands the content to the channel registered under it; other channels are untouched.
\<close>

locale reply_router =
  fixes pending :: "'s \<Rightarrow> rstr \<rightharpoonup> nat"
    and chan_of :: "'s \<Rightarrow> nat \<Rightarrow> 'l chan"
    and route :: "'m \<Rightarrow> 's \<Rightarrow> 's"
    and reply_to :: "'m \<Rightarrow> rstr option"
    and content :: "'m \<Rightarrow> (rstr, 'l scheme_val) result"
  assumes route_pending:
      "pending (route m s) = (case reply_to m of None \<Rightarrow> pending s | Some k \<Rightarrow> (pending s)(k := None))"
    and route_chan:
      "chan_of (route m s) ch =
         (if \<exists>k. reply_to m = Some k \<and> pending s k = Some ch
          then chan_send (content m) (chan_of s ch) else chan_of s ch)"
begin

lemma pending_fold:
  "pending (fold route ms s) k = (if Some k \<in> reply_to ` set ms then None else pending s k)"
proof (induction ms arbitrary: s)
  case (Cons m ms)
  then show ?case by (auto simp: route_pending split: option.splits)
qed simp

lemma chan_fold_unregistered:
  "(\<And>k. pending s k \<noteq> Some ch) \<Longrightarrow> chan_of (fold route ms s) ch = chan_of s ch"
proof (induction ms arbitrary: s)
  case (Cons m ms)
  have "pending (route m s) k \<noteq> Some ch" for k
    using Cons.prems by (auto simp: route_pending split: option.splits)
  then have "chan_of (fold route ms (route m s)) ch = chan_of (route m s) ch"
    by (rule Cons.IH)
  also have "\<dots> = chan_of s ch"
    using Cons.prems by (auto simp: route_chan)
  finally show ?case by simp
qed simp

text \<open>A registered channel gets the first message that answers its id, and no other.\<close>

lemma chan_fold_registered:
  assumes "pending s k = Some ch" and "\<And>j. pending s j = Some ch \<Longrightarrow> j = k"
  shows "chan_of (fold route ms s) ch =
    (case find (\<lambda>m. reply_to m = Some k) ms of
       None \<Rightarrow> chan_of s ch
     | Some m \<Rightarrow> chan_send (content m) (chan_of s ch))"
  using assms
proof (induction ms arbitrary: s)
  case Nil
  show ?case by simp
next
  case (Cons m ms)
  show ?case
  proof (cases "reply_to m = Some k")
    case True
    have "pending (route m s) j \<noteq> Some ch" for j
    proof (cases "j = k")
      case True
      with \<open>reply_to m = Some k\<close> show ?thesis by (simp add: route_pending)
    next
      case False
      then have "pending s j \<noteq> Some ch" using Cons.prems(2) by blast
      with False \<open>reply_to m = Some k\<close> show ?thesis by (simp add: route_pending)
    qed
    then have "chan_of (fold route ms (route m s)) ch = chan_of (route m s) ch"
      by (rule chan_fold_unregistered)
    moreover have "chan_of (route m s) ch = chan_send (content m) (chan_of s ch)"
      using True Cons.prems(1) by (simp add: route_chan)
    ultimately show ?thesis using True by simp
  next
    case False
    have k: "pending (route m s) k = Some ch"
      using Cons.prems(1) False by (simp add: route_pending split: option.splits)
    have "j = k" if "pending (route m s) j = Some ch" for j
      using that by (intro Cons.prems(2)) (simp add: route_pending split: option.splits if_splits)
    note IH = Cons.IH [OF k this]
    have "\<not> (\<exists>j. reply_to m = Some j \<and> pending s j = Some ch)"
      using Cons.prems(2) False by blast
    then have same: "chan_of (route m s) ch = chan_of s ch"
      by (simp only: route_chan if_False)
    show ?thesis using IH False unfolding same by simp
  qed
qed

end

lemma route_reply_frame:
  "our_did (route_reply core decode m ctx) = our_did ctx \<and>
   config (route_reply core decode m ctx) = config ctx \<and>
   inbox (route_reply core decode m ctx) = inbox ctx \<and>
   display_sink (route_reply core decode m ctx) = display_sink ctx"
  by (auto simp: route_reply_def Let_def split: option.splits)

interpretation replies: reply_router reply_senders chans "route_reply core decode"
  "message_reply_to core" "\<lambda>m. decode (message_payload core m)"
  for core :: "('did, 'key, 'msg, 'ob) ma_core"
    and decode :: "bytes \<Rightarrow> (rstr, 'l scheme_val) result"
  by unfold_locales (auto simp: route_reply_def Let_def fun_eq_iff split: option.splits)

section \<open>One poll\<close>

text \<open>Every registered channel is registered under one id and still open.\<close>

definition reply_table_ok :: "('cfg, 'ib, 'l) cli_ctx \<Rightarrow> bool" where
  "reply_table_ok ctx \<longleftrightarrow>
     (\<forall>k ch. reply_senders ctx k = Some ch \<longrightarrow>
        chans ctx ch = ChanOpen \<and> (\<forall>j. reply_senders ctx j = Some ch \<longrightarrow> j = k))"

lemma poll_replies_unfold:
  "drain now (inbox ctx) = (ms, ib) \<Longrightarrow>
     poll_replies drain core decode now ctx = fold (route_reply core decode) ms (ctx\<lparr>inbox := ib\<rparr>)"
  by (simp add: poll_replies_def)

lemma inbox_fold_route [simp]:
  "inbox (fold (route_reply core decode) ms ctx) = inbox ctx"
  by (induction ms arbitrary: ctx) (simp_all add: route_reply_frame)

lemma reply_table_ok_poll:
  assumes "reply_table_ok ctx"
  shows "reply_table_ok (poll_replies drain core decode now ctx)"
proof -
  obtain ms ib where d: "drain now (inbox ctx) = (ms, ib)" by fastforce
  let ?c = "ctx\<lparr>inbox := ib\<rparr>"
  let ?t = "fold (route_reply core decode) ms ?c"
  have "chans ?t ch = ChanOpen \<and> (\<forall>j. reply_senders ?t j = Some ch \<longrightarrow> j = k)"
    if k: "reply_senders ?t k = Some ch" for k ch
  proof -
    from k have nk: "Some k \<notin> message_reply_to core ` set ms" and pk: "reply_senders ?c k = Some ch"
      by (auto simp: replies.pending_fold split: if_splits)
    then have "find (\<lambda>m. message_reply_to core m = Some k) ms = None"
      by (force simp: find_None_iff)
    moreover have inj: "\<And>j. reply_senders ?c j = Some ch \<Longrightarrow> j = k"
      using assms pk by (auto simp: reply_table_ok_def)
    ultimately have "chans ?t ch = chans ?c ch"
      using replies.chan_fold_registered
        [where s = ?c and ms = ms and core = core and decode = decode, OF pk] by simp
    then have "chans ?t ch = ChanOpen" using assms pk by (auto simp: reply_table_ok_def)
    moreover have "j = k" if "reply_senders ?t j = Some ch" for j
      using that inj by (auto simp: replies.pending_fold split: if_splits)
    ultimately show ?thesis by blast
  qed
  then show ?thesis
    unfolding poll_replies_unfold [where drain = drain, OF d] reply_table_ok_def by blast
qed

lemma poll_delivers_first:
  assumes "reply_table_ok ctx" and "reply_senders ctx mid = Some ch"
    and "drain now (inbox ctx) = (ms, ib)"
  shows "case find (\<lambda>m. message_reply_to core m = Some mid) ms of
      Some m \<Rightarrow>
        chans (poll_replies drain core decode now ctx) ch = ChanSent (decode (message_payload core m)) \<and>
        reply_senders (poll_replies drain core decode now ctx) mid = None
    | None \<Rightarrow>
        chans (poll_replies drain core decode now ctx) ch = ChanOpen \<and>
        reply_senders (poll_replies drain core decode now ctx) mid = Some ch"
proof -
  let ?c = "ctx\<lparr>inbox := ib\<rparr>"
  have pend: "reply_senders ?c mid = Some ch" using assms(2) by simp
  have inj: "\<And>j. reply_senders ?c j = Some ch \<Longrightarrow> j = mid"
    using assms(1,2) by (auto simp: reply_table_ok_def)
  have open_ch: "chans ?c ch = ChanOpen" using assms(1,2) by (auto simp: reply_table_ok_def)
  note chan = replies.chan_fold_registered
    [where s = ?c and ms = ms and core = core and decode = decode, OF pend inj]
  show ?thesis
  proof (cases "find (\<lambda>m. message_reply_to core m = Some mid) ms")
    case None
    then have "Some mid \<notin> message_reply_to core ` set ms" by (auto simp: find_None_iff)
    with None chan open_ch pend show ?thesis
      by (simp add: poll_replies_unfold [where drain = drain, OF assms(3)] replies.pending_fold)
  next
    case (Some m)
    then have "m \<in> set ms" "message_reply_to core m = Some mid"
      by (auto simp: find_Some_iff)
    then have "Some mid \<in> message_reply_to core ` set ms" by force
    with Some chan open_ch show ?thesis
      by (simp add: poll_replies_unfold [where drain = drain, OF assms(3)] replies.pending_fold)
  qed
qed

text \<open>A small instance of the message interface, for the examples: a message is its id, the id it
  answers and its payload.\<close>

definition sample_core :: "(unit, unit, rstr \<times> rstr option \<times> bytes, unit) ma_core" where
  "sample_core =
     \<lparr>did_try_from = (\<lambda>_. Ok ()), did_with_fragment = (\<lambda>_ _. Ok ()), did_id = (\<lambda>_. lit ''did:ma:me#inbox''),
      did_validate_url = (\<lambda>u. if starts_with u (lit ''did:'') then Ok () else Err (lit ''bad url'')),
      key_from_bytes = (\<lambda>_ _. Ok ()), message_new = (\<lambda>_ _ _ _ b _. Ok (lit ''m1'', None, b)),
      message_id = fst, message_reply_to = (\<lambda>m. fst (snd m)), message_payload = (\<lambda>m. snd (snd m)),
      message_type_message = [], content_type_term = [], inbox_protocol_id = [],
      endpoint_outbox = (\<lambda>_ _. Ok ()), outbox_send = (\<lambda>_ _. Ok ())\<rparr>"

definition sample_ctx :: "(unit, (rstr \<times> rstr option \<times> bytes) list, unit) cli_ctx" where
  "sample_ctx =
     \<lparr>config = (), our_did = lit ''did:ma:me'', signing_key_bytes = [], endpoint_open = True,
      kubo_url = [], reply_senders = Map.empty, chans = (\<lambda>_. ChanOpen),
      inbox = [], display_sink = None\<rparr>"

section \<open>Calls, polls and the network in any order\<close>

text \<open>
  A call is one invocation of \<open>do_actor_call\<close>, named by the channel it will use.  While its send is
  being awaited the message may already be out, so its reply may arrive; only when the send has
  returned is the channel registered.  \<open>sys_arrived\<close> is the history of what the network put into
  the inbox, \<open>sys_used\<close> the message ids handed out so far (ids are fresh).
\<close>

datatype call_phase = CallIdle | CallSending rstr | CallAwaiting rstr | CallSendFailed

record ('cfg, 'msg, 'l) call_sys =
  sys_ctx :: "('cfg, 'msg list, 'l) cli_ctx"
  sys_phase :: "nat \<Rightarrow> call_phase"
  sys_used :: "rstr set"
  sys_arrived :: "'msg list"

inductive call_step ::
  "('did, 'key, 'msg, 'ob) ma_core \<Rightarrow> (bytes \<Rightarrow> (rstr, 'l scheme_val) result) \<Rightarrow>
     (u64 \<Rightarrow> 'msg list \<Rightarrow> 'msg list \<times> 'msg list) \<Rightarrow>
     ('cfg, 'msg, 'l) call_sys \<Rightarrow> ('cfg, 'msg, 'l) call_sys \<Rightarrow> bool"
  for core decode drain where
  call_send: "sys_phase s ch = CallIdle \<Longrightarrow> mid \<notin> sys_used s \<Longrightarrow>
    call_step core decode drain s
      (s\<lparr>sys_phase := (sys_phase s)(ch := CallSending mid), sys_used := insert mid (sys_used s)\<rparr>)"
| call_arrive:
    "call_step core decode drain s
      (s\<lparr>sys_ctx := (sys_ctx s)\<lparr>inbox := inbox (sys_ctx s) @ [m]\<rparr>, sys_arrived := sys_arrived s @ [m]\<rparr>)"
| call_sent: "sys_phase s ch = CallSending mid \<Longrightarrow>
    call_step core decode drain s
      (s\<lparr>sys_phase := (sys_phase s)(ch := CallAwaiting mid),
         sys_ctx := register_reply_sender mid ch
           ((sys_ctx s)\<lparr>chans := (chans (sys_ctx s))(ch := ChanOpen)\<rparr>)\<rparr>)"
| call_send_failed: "sys_phase s ch = CallSending mid \<Longrightarrow>
    call_step core decode drain s (s\<lparr>sys_phase := (sys_phase s)(ch := CallSendFailed)\<rparr>)"
| call_poll: "drain now (inbox (sys_ctx s)) = (ms, ib) \<Longrightarrow>
    set ms \<union> set ib \<subseteq> set (inbox (sys_ctx s)) \<Longrightarrow>
    call_step core decode drain s (s\<lparr>sys_ctx := poll_replies drain core decode now (sys_ctx s)\<rparr>)"

inductive_cases call_stepE: "call_step core decode drain s t"

definition call_init :: "('cfg, 'msg, 'l) call_sys \<Rightarrow> bool" where
  "call_init s \<longleftrightarrow>
     reply_senders (sys_ctx s) = Map.empty \<and> inbox (sys_ctx s) = [] \<and>
     sys_phase s = (\<lambda>_. CallIdle) \<and> sys_used s = {} \<and> sys_arrived s = []"

fun call_id :: "call_phase \<Rightarrow> rstr option" where
  "call_id (CallSending k) = Some k"
| "call_id (CallAwaiting k) = Some k"
| "call_id _ = None"

definition ids_inv :: "('cfg, 'msg, 'l) call_sys \<Rightarrow> bool" where
  "ids_inv s \<longleftrightarrow>
     (\<forall>ch k. call_id (sys_phase s ch) = Some k \<longrightarrow> k \<in> sys_used s) \<and>
     (\<forall>ch ch' k. call_id (sys_phase s ch) = Some k \<longrightarrow> call_id (sys_phase s ch') = Some k \<longrightarrow> ch = ch')"

text \<open>How the table, the channels and the calls agree.\<close>

definition route_inv ::
  "('did, 'key, 'msg, 'ob) ma_core \<Rightarrow> (bytes \<Rightarrow> (rstr, 'l scheme_val) result) \<Rightarrow>
     ('cfg, 'msg, 'l) call_sys \<Rightarrow> bool" where
  "route_inv core decode s \<longleftrightarrow>
     set (inbox (sys_ctx s)) \<subseteq> set (sys_arrived s) \<and>
     (\<forall>k ch. reply_senders (sys_ctx s) k = Some ch \<longrightarrow>
        sys_phase s ch = CallAwaiting k \<and> chans (sys_ctx s) ch = ChanOpen) \<and>
     (\<forall>ch k. sys_phase s ch = CallAwaiting k \<longrightarrow>
        (reply_senders (sys_ctx s) k = Some ch \<and> chans (sys_ctx s) ch = ChanOpen) \<or>
        (\<exists>m \<in> set (sys_arrived s). message_reply_to core m = Some k \<and>
           chans (sys_ctx s) ch = ChanSent (decode (message_payload core m))))"

lemma ids_inv_step: "call_step core decode drain s t \<Longrightarrow> ids_inv s \<Longrightarrow> ids_inv t"
proof (induction rule: call_step.induct)
  case (call_send s ch mid)
  then show ?case by (auto simp: ids_inv_def split: if_splits)
next
  case (call_sent s ch mid)
  have same: "call_id (((sys_phase s)(ch := CallAwaiting mid)) c) = call_id (sys_phase s c)" for c
    using call_sent.hyps by simp
  show ?case
    using call_sent.prems by (simp add: ids_inv_def same del: fun_upd_apply)
next
  case (call_send_failed s ch mid)
  then show ?case by (auto simp: ids_inv_def split: if_splits)
qed (auto simp: ids_inv_def)

lemma route_inv_table_ok: "route_inv core decode s \<Longrightarrow> reply_table_ok (sys_ctx s)"
  unfolding route_inv_def reply_table_ok_def by (metis call_phase.inject(2))

lemma route_inv_D:
  assumes "route_inv core decode s"
  shows "set (inbox (sys_ctx s)) \<subseteq> set (sys_arrived s)"
    and "\<And>k ch. reply_senders (sys_ctx s) k = Some ch \<Longrightarrow>
      sys_phase s ch = CallAwaiting k \<and> chans (sys_ctx s) ch = ChanOpen"
    and "\<And>ch k. sys_phase s ch = CallAwaiting k \<Longrightarrow>
      (reply_senders (sys_ctx s) k = Some ch \<and> chans (sys_ctx s) ch = ChanOpen) \<or>
      (\<exists>m \<in> set (sys_arrived s). message_reply_to core m = Some k \<and>
         chans (sys_ctx s) ch = ChanSent (decode (message_payload core m)))"
  using assms by (auto simp: route_inv_def)

lemma poll_inbox: "drain now (inbox ctx) = (ms, ib) \<Longrightarrow> inbox (poll_replies drain core decode now ctx) = ib"
  by (simp add: poll_replies_unfold)

lemma poll_senders:
  assumes "drain now (inbox ctx) = (ms, ib)"
  shows "reply_senders (poll_replies drain core decode now ctx) k =
    (if Some k \<in> message_reply_to core ` set ms then None else reply_senders ctx k)"
  by (simp add: poll_replies_unfold [where drain = drain, OF assms] replies.pending_fold)

lemma poll_chan_unregistered:
  assumes "\<And>k. reply_senders ctx k \<noteq> Some ch"
  shows "chans (poll_replies drain core decode now ctx) ch = chans ctx ch"
proof -
  obtain ms ib where d: "drain now (inbox ctx) = (ms, ib)" by fastforce
  have "\<And>k. reply_senders (ctx\<lparr>inbox := ib\<rparr>) k \<noteq> Some ch" using assms by simp
  from replies.chan_fold_unregistered [where ms = ms and core = core and decode = decode, OF this]
  show ?thesis by (simp add: poll_replies_unfold [where drain = drain, OF d])
qed

lemma route_inv_poll:
  assumes inv: "route_inv core decode s"
    and d: "drain now (inbox (sys_ctx s)) = (ms, ib)"
    and sub: "set ms \<union> set ib \<subseteq> set (inbox (sys_ctx s))"
  shows "route_inv core decode (s\<lparr>sys_ctx := poll_replies drain core decode now (sys_ctx s)\<rparr>)"
proof -
  let ?c = "sys_ctx s" and ?p = "poll_replies drain core decode now (sys_ctx s)"
  note D = route_inv_D [OF inv]
  note senders = poll_senders [where drain = drain and core = core and decode = decode, OF d]
  have ok: "reply_table_ok ?c" using inv by (rule route_inv_table_ok)
  note first = poll_delivers_first [where drain = drain and core = core and decode = decode, OF ok _ d]
  have 1: "set (inbox ?p) \<subseteq> set (sys_arrived s)"
    using D(1) sub by (auto simp: poll_inbox [where drain = drain, OF d])
  have 2: "sys_phase s ch = CallAwaiting k \<and> chans ?p ch = ChanOpen"
    if "reply_senders ?p k = Some ch" for k ch
  proof -
    from that have k: "reply_senders ?c k = Some ch"
      and none: "Some k \<notin> message_reply_to core ` set ms"
      by (auto simp: senders split: if_splits)
    then have "find (\<lambda>m. message_reply_to core m = Some k) ms = None"
      by (force simp: find_None_iff)
    with first [OF k] D(2) [OF k] show ?thesis by simp
  qed
  have 3: "(reply_senders ?p k = Some ch \<and> chans ?p ch = ChanOpen) \<or>
      (\<exists>m \<in> set (sys_arrived s). message_reply_to core m = Some k \<and>
         chans ?p ch = ChanSent (decode (message_payload core m)))"
    if aw: "sys_phase s ch = CallAwaiting k" for ch k
    using D(3) [OF aw]
  proof
    assume reg: "reply_senders ?c k = Some ch \<and> chans ?c ch = ChanOpen"
    show ?thesis
    proof (cases "find (\<lambda>m. message_reply_to core m = Some k) ms")
      case None
      with first [of k ch] reg show ?thesis by simp
    next
      case (Some m)
      then have "m \<in> set ms" "message_reply_to core m = Some k"
        by (auto simp: find_Some_iff)
      moreover from this(1) sub D(1) have "m \<in> set (sys_arrived s)" by auto
      ultimately show ?thesis using first [of k ch] reg Some by auto
    qed
  next
    assume "\<exists>m \<in> set (sys_arrived s). message_reply_to core m = Some k \<and>
         chans ?c ch = ChanSent (decode (message_payload core m))"
    then obtain m where m: "m \<in> set (sys_arrived s)" "message_reply_to core m = Some k"
        "chans ?c ch = ChanSent (decode (message_payload core m))" by blast
    then have "reply_senders ?c j \<noteq> Some ch" for j using D(2) [of j ch] by auto
    then have "chans ?p ch = chans ?c ch" by (rule poll_chan_unregistered)
    with m show ?thesis by auto
  qed
  show ?thesis
    unfolding route_inv_def using 1 2 3 by simp
qed

lemma route_inv_step:
  "call_step core decode drain s t \<Longrightarrow> ids_inv s \<Longrightarrow> route_inv core decode s \<Longrightarrow> route_inv core decode t"
proof (induction rule: call_step.induct)
  case (call_send s ch mid)
  then show ?case by (auto simp: route_inv_def)
next
  case (call_arrive s m)
  then show ?case by (fastforce simp: route_inv_def)
next
  case (call_send_failed s ch mid)
  then show ?case by (auto simp: route_inv_def)
next
  case (call_poll now s ms ib)
  then show ?case by (blast intro: route_inv_poll)
next
  case (call_sent s ch mid)
  note D = route_inv_D [OF call_sent.prems(2)]
  have sole: "sys_phase s c \<noteq> CallAwaiting mid" for c
  proof
    assume c: "sys_phase s c = CallAwaiting mid"
    then have "c = ch" using call_sent.hyps call_sent.prems(1) by (simp add: ids_inv_def)
    with c call_sent.hyps show False by simp
  qed
  then have free: "reply_senders (sys_ctx s) mid = None"
    using D(2) [of mid] by (cases "reply_senders (sys_ctx s) mid") auto
  have other: "reply_senders (sys_ctx s) k \<noteq> Some ch" for k
    using D(2) [of k ch] call_sent.hyps by auto
  show ?case
    unfolding route_inv_def
    using D sole free other call_sent.hyps by (auto simp: register_reply_sender_def)
qed

interpretation call_routing: relative_invariant call_init "call_step core decode drain" ids_inv
  "route_inv core decode"
  for core :: "('did, 'key, 'msg, 'ob) ma_core"
    and decode :: "bytes \<Rightarrow> (rstr, 'l scheme_val) result"
    and drain :: "u64 \<Rightarrow> 'msg list \<Rightarrow> 'msg list \<times> 'msg list"
proof unfold_locales
  show "ids_inv s" if "call_init s" for s :: "('cfg, 'msg, 'l) call_sys"
    using that by (simp add: call_init_def ids_inv_def)
  show "route_inv core decode s" if "call_init s" for s :: "('cfg, 'msg, 'l) call_sys"
    using that by (simp add: call_init_def route_inv_def)
qed (blast intro: ids_inv_step route_inv_step)+

text \<open>
  C10.  Replies never cross over, in any interleaving: what a call finishes with is the decoded
  payload of a message that arrived and answers that call's own message id, and a call that has
  registered is never cancelled.
\<close>

theorem reply_routing_safe:
  assumes "reachable call_init (call_step core decode drain) s"
    and "sys_phase s ch = CallAwaiting mid"
    and "await_reply (chans (sys_ctx s) ch) = Some r"
  shows "\<exists>m \<in> set (sys_arrived s). message_reply_to core m = Some mid \<and>
           r = map_err MaError (decode (message_payload core m))"
proof -
  have "route_inv core decode s"
    using call_routing.both.always [OF assms(1)] by blast
  from route_inv_D(3) [OF this assms(2)] assms(3)
  obtain m where m: "m \<in> set (sys_arrived s)" "message_reply_to core m = Some mid"
      "chans (sys_ctx s) ch = ChanSent (decode (message_payload core m))"
    by auto
  from m(3) assms(3) have "r = map_err MaError (decode (message_payload core m))"
    by (cases "decode (message_payload core m)") auto
  with m(1,2) show ?thesis by blast
qed

text \<open>An example run: a call sends, registers, its reply arrives and is polled.\<close>

definition sample_sys :: "(unit, rstr \<times> rstr option \<times> bytes, unit) call_sys" where
  "sample_sys = \<lparr>sys_ctx = sample_ctx, sys_phase = (\<lambda>_. CallIdle), sys_used = {}, sys_arrived = []\<rparr>"

lemma call_init_sample: "call_init sample_sys"
  by (simp add: call_init_def sample_sys_def sample_ctx_def)

abbreviation sample_step ::
  "(unit, rstr \<times> rstr option \<times> bytes, unit) call_sys \<Rightarrow> (unit, rstr \<times> rstr option \<times> bytes, unit) call_sys \<Rightarrow> bool"
where
  "sample_step \<equiv> call_step sample_core (\<lambda>p. Ok (SBytes p)) (\<lambda>_ q. (q, []))"

lemma sample_run:
  assumes "phase = CallAwaiting (lit ''m1'')"
  shows "\<exists>s. reachable call_init sample_step s \<and> sys_phase s 0 = phase \<and>
     await_reply (chans (sys_ctx s) 0) = Some (Ok (SBytes [5]))"
proof -
  let ?m = "(lit ''m9'', Some (lit ''m1''), [5]) :: rstr \<times> rstr option \<times> bytes"
  define s1 where "s1 = sample_sys\<lparr>sys_phase := (sys_phase sample_sys)(0 := CallSending (lit ''m1'')),
    sys_used := insert (lit ''m1'') (sys_used sample_sys)\<rparr>"
  define s2 where "s2 = s1\<lparr>sys_phase := (sys_phase s1)(0 := CallAwaiting (lit ''m1'')),
    sys_ctx := register_reply_sender (lit ''m1'') 0 ((sys_ctx s1)\<lparr>chans := (chans (sys_ctx s1))(0 := ChanOpen)\<rparr>)\<rparr>"
  define s3 where "s3 = s2\<lparr>sys_ctx := (sys_ctx s2)\<lparr>inbox := inbox (sys_ctx s2) @ [?m]\<rparr>,
    sys_arrived := sys_arrived s2 @ [?m]\<rparr>"
  define s4 where "s4 = s3\<lparr>sys_ctx := poll_replies (\<lambda>_ q. (q, [])) sample_core (\<lambda>p. Ok (SBytes p)) 0 (sys_ctx s3)\<rparr>"
  have "sample_step sample_sys s1"
    unfolding s1_def by (rule call_send) (simp_all add: sample_sys_def)
  moreover have "sample_step s1 s2"
    unfolding s2_def by (rule call_sent) (simp add: s1_def)
  moreover have "sample_step s2 s3"
    unfolding s3_def by (rule call_arrive)
  moreover have "sample_step s3 s4"
    unfolding s4_def by (rule call_poll [where now = 0 and ms = "inbox (sys_ctx s3)" and ib = "[]"]) simp_all
  ultimately have "reachable call_init sample_step s4"
    by (meson reach_init [where init = call_init, OF call_init_sample] reach_step)
  moreover have "sys_phase s4 0 = phase" "await_reply (chans (sys_ctx s4) 0) = Some (Ok (SBytes [5]))"
    using assms
    by (simp_all add: s4_def s3_def s2_def s1_def sample_sys_def sample_ctx_def poll_replies_def
        route_reply_def sample_core_def register_reply_sender_def)
  ultimately show ?thesis by blast
qed

theorem reply_routing_safe_witness:
  "\<exists>s :: (unit, rstr \<times> rstr option \<times> bytes, unit) call_sys.
     reachable call_init sample_step s \<and> sys_phase s 0 = CallAwaiting (lit ''m1'') \<and>
     (\<exists>m \<in> set (sys_arrived s). message_reply_to sample_core m = Some (lit ''m1''))"
proof -
  obtain s where s: "reachable call_init sample_step s" "sys_phase s 0 = CallAwaiting (lit ''m1'')"
      "await_reply (chans (sys_ctx s) 0) = Some (Ok (SBytes [5]))"
    using sample_run by blast
  from reply_routing_safe [OF s] s(1,2) show ?thesis by blast
qed

section \<open>The reply that comes too early\<close>

text \<open>A run in which nothing more arrives from the network.\<close>

definition quiet_step where
  "quiet_step core decode drain s t \<longleftrightarrow> call_step core decode drain s t \<and> sys_arrived t = sys_arrived s"

definition stuck where
  "stuck core decode ch mid s \<longleftrightarrow>
     ids_inv s \<and> route_inv core decode s \<and> inbox (sys_ctx s) = [] \<and>
     sys_phase s ch = CallAwaiting mid \<and> reply_senders (sys_ctx s) mid = Some ch"

lemma stuck_step:
  assumes "quiet_step core decode drain s t" and "stuck core decode ch mid s"
  shows "stuck core decode ch mid t"
proof -
  from assms have step: "call_step core decode drain s t" and quiet: "sys_arrived t = sys_arrived s"
    and inv: "ids_inv s" "route_inv core decode s" and st: "inbox (sys_ctx s) = []"
      "sys_phase s ch = CallAwaiting mid" "reply_senders (sys_ctx s) mid = Some ch"
    by (auto simp: quiet_step_def stuck_def)
  have inv': "ids_inv t" "route_inv core decode t"
    using step inv by (auto intro: ids_inv_step route_inv_step)
  have "inbox (sys_ctx t) = [] \<and> sys_phase t ch = CallAwaiting mid \<and> reply_senders (sys_ctx t) mid = Some ch"
    using step
  proof (cases rule: call_step.cases)
    case (call_sent c k)
    then have c: "c \<noteq> ch" "call_id (sys_phase s c) = Some k" using st(2) by auto
    have "k \<noteq> mid"
    proof
      assume "k = mid"
      with c(2) have "call_id (sys_phase s c) = Some mid" "call_id (sys_phase s ch) = Some mid"
        using st(2) by simp_all
      with inv(1) c(1) show False unfolding ids_inv_def by blast
    qed
    with c(1) st call_sent show ?thesis by (simp add: register_reply_sender_def)
  next
    case (call_poll now ms ib)
    then have "ms = []" "ib = []" using st(1) by auto
    with st call_poll show ?thesis by (simp add: poll_replies_def)
  qed (use st quiet in auto)
  with inv' show ?thesis by (simp add: stuck_def)
qed



end
