(* ===== verification/Zs_Progress.thy ===== *)
theory Zs_Progress
  imports Zs_Server Zs_Replies
begin

text \<open>
  Progress.  Of the concurrent daemon of \<open>Zs_Server\<close>: in every run in which evaluations end and a
  free lock is handed to a waiter, every submitted evaluation is answered, after exactly the
  evaluations that were ahead of it; and one that never ends holds up every other for ever.  Of the
  actor calls of \<open>Zs_Replies\<close>: a registered call whose reply has arrived is answered if polling
  goes on.
\<close>

section \<open>Runs of the server\<close>

text \<open>
  What liveness rests on, outside the daemon's own code: the evaluator returns, and tokio's mutex
  wakes its first waiter once it is free.
\<close>

lemma server_stutters: "server_step s s"
  using srv_other [of "srv_ctx s" s] by simp

definition server_run :: "(nat \<Rightarrow> ('cfg, 'ib, 'l) server) \<Rightarrow> bool" where
  "server_run \<sigma> \<longleftrightarrow> run_of server_step \<sigma> \<and> reachable server_init server_step (\<sigma> 0)"

definition evaluations_end :: "(nat \<Rightarrow> ('cfg, 'ib, 'l) server) \<Rightarrow> bool" where
  "evaluations_end \<sigma> \<longleftrightarrow>
     (\<forall>i c rid. srv_conns (\<sigma> i) c = ConnEvaluating rid \<longrightarrow>
        (\<exists>j \<ge> i. srv_conns (\<sigma> j) c \<noteq> ConnEvaluating rid))"

definition lock_handed_over :: "(nat \<Rightarrow> ('cfg, 'ib, 'l) server) \<Rightarrow> bool" where
  "lock_handed_over \<sigma> \<longleftrightarrow>
     (\<forall>i. srv_lock (\<sigma> i) = None \<and> srv_queue (\<sigma> i) \<noteq> [] \<longrightarrow> (\<exists>j \<ge> i. srv_lock (\<sigma> j) \<noteq> None))"

section \<open>A queued connection moves up\<close>

definition ahead :: "nat \<Rightarrow> ('cfg, 'ib, 'l) server \<Rightarrow> nat list" where
  "ahead c s = takeWhile (\<lambda>d. d \<noteq> c) (srv_queue s)"

definition turn_rank :: "nat \<Rightarrow> ('cfg, 'ib, 'l) server \<Rightarrow> nat" where
  "turn_rank c s = 2 * length (ahead c s) + (if srv_lock s = None then 0 else 1)"

definition lock_changes :: "('cfg, 'ib, 'l) server \<Rightarrow> ('cfg, 'ib, 'l) server \<Rightarrow> bool" where
  "lock_changes s t \<longleftrightarrow> srv_lock s \<noteq> srv_lock t"

lemma in_queue: "lock_inv s \<Longrightarrow> srv_conns s c = ConnQueued rid \<Longrightarrow> c \<in> set (srv_queue s)"
  by (auto simp: lock_inv_def queue_ok_def)

lemma ahead_append: "c \<in> set (srv_queue s) \<Longrightarrow> takeWhile (\<lambda>d. d \<noteq> c) (srv_queue s @ ds) = ahead c s"
  by (simp add: ahead_def takeWhile_append1)

text \<open>
  The three things that can happen to the connection and to the evaluations ahead of it in one
  step: nothing, an evaluation of another connection begins or ends, or its own begins.
\<close>

definition order_of :: "nat \<Rightarrow> ('cfg, 'ib, 'l) server \<Rightarrow> job list" where
  "order_of c s = srv_acq s @ map (job_of s) (ahead c s)"

lemma set_ahead: "set (ahead c s) \<subseteq> set (srv_queue s)"
  by (auto simp: ahead_def dest: set_takeWhileD)

lemma order_other:
  assumes "srv_conns t = (srv_conns s)(d := p)" and "d \<notin> set (srv_queue s)"
    and "ahead c t = ahead c s" and "srv_acq t = srv_acq s"
  shows "order_of c t = order_of c s"
proof -
  from assms(2) have "d \<notin> set (ahead c s)" using set_ahead by blast
  from job_of_other [OF assms(1) this] assms(3,4) show ?thesis by (simp add: order_of_def)
qed

lemma queued_step:
  assumes "server_step s t" and "lock_inv s" and "srv_conns s c = ConnQueued rid"
  shows "srv_conns t c = ConnEvaluating rid \<and> srv_out t c = srv_out s c \<and>
       srv_acq t = order_of c s @ [(c, rid)] \<and> srv_lock s = None \<or>
     srv_conns t c = ConnQueued rid \<and> srv_out t c = srv_out s c \<and> order_of c t = order_of c s \<and>
       (turn_rank c t < turn_rank c s \<or> srv_lock t = srv_lock s \<and> turn_rank c t = turn_rank c s)"
  using assms
proof (induction rule: server_step.induct)
  case (srv_simple s d req r)
  then show ?case
    using order_other [of "s\<lparr>srv_out := (srv_out s)(d := srv_out s d @ [r])\<rparr>" s d ConnReading c]
    by (auto simp: ahead_def turn_rank_def not_queued fun_upd_idem)
next
  case (srv_stop s d)
  let ?t = "s\<lparr>srv_out := (srv_out s)(d := srv_out s d @ [Stopping]), srv_conns := (srv_conns s)(d := ConnEnded)\<rparr>"
  from srv_stop show ?case
    using order_other [of ?t s d ConnEnded c] by (auto simp: ahead_def turn_rank_def not_queued)
next
  case (srv_close s d)
  then show ?case
    using order_other [of "s\<lparr>srv_conns := (srv_conns s)(d := ConnEnded)\<rparr>" s d ConnEnded c]
    by (auto simp: ahead_def turn_rank_def not_queued)
next
  case (srv_submit s d rid')
  let ?t = "s\<lparr>srv_conns := (srv_conns s)(d := ConnQueued rid'),
      srv_queue := srv_queue s @ [d], srv_enq := srv_enq s @ [(d, rid')]\<rparr>"
  have "ahead c ?t = ahead c s"
    using ahead_append [OF in_queue [OF srv_submit.prems]] by (simp add: ahead_def)
  with srv_submit show ?case
    using order_other [of ?t s d "ConnQueued rid'" c] by (auto simp: turn_rank_def not_queued)
next
  case (srv_acquire s d q rid')
  let ?t = "s\<lparr>srv_conns := (srv_conns s)(d := ConnEvaluating rid'), srv_lock := Some d,
      srv_queue := q, srv_acq := srv_acq s @ [(d, rid')],
      srv_ctx := set_display_sink (Some (Sink d rid')) (srv_ctx s)\<rparr>"
  show ?case
  proof (cases "d = c")
    case True
    with srv_acquire show ?thesis by (simp add: order_of_def ahead_def)
  next
    case False
    have "d \<notin> set q" using srv_acquire by (simp add: lock_inv_def queue_ok_def)
    then have "d \<notin> set (ahead c ?t)" by (auto simp: ahead_def dest: set_takeWhileD)
    moreover have up: "ahead c s = d # ahead c ?t"
      using srv_acquire.hyps(2) False by (simp add: ahead_def)
    ultimately have "order_of c ?t = order_of c s"
      using job_of_other [of ?t s d "ConnEvaluating rid'" "ahead c ?t"] srv_acquire.hyps(3)
      by (simp add: order_of_def job_of_def [of s d])
    moreover have "turn_rank c ?t < turn_rank c s"
      using up srv_acquire.hyps(1) by (simp add: turn_rank_def)
    ultimately show ?thesis using False srv_acquire.prems(2) by simp
  qed
next
  case (srv_display s d rid' msg)
  have "display_output (srv_ctx s) msg = ToSink d rid' msg"
    using srv_display by (simp add: lock_inv_def lock_ok_evaluating)
  moreover have "d \<noteq> c" using srv_display by auto
  moreover have "job_of (s\<lparr>srv_out := out\<rparr>) = job_of s" for out
    by (simp add: fun_eq_iff job_of_def)
  ultimately show ?case using srv_display.prems
    by (simp add: order_of_def ahead_def turn_rank_def display_responses_def)
next
  case (srv_finish s d rid' outcome ctx')
  let ?t = "s\<lparr>srv_conns := (srv_conns s)(d := ConnReading), srv_lock := None,
      srv_ctx := set_display_sink None ctx',
      srv_out := (srv_out s)(d := srv_out s d @ [EvalResult rid' outcome])\<rparr>"
  have "srv_lock s = Some d" using srv_finish by (simp add: lock_inv_def lock_ok_evaluating(1))
  with srv_finish show ?case
    using order_other [of ?t s d ConnReading c] by (auto simp: ahead_def turn_rank_def not_queued)
next
  case (srv_other ctx' s)
  have "job_of (s\<lparr>srv_ctx := ctx'\<rparr>) = job_of s" by (simp add: fun_eq_iff job_of_def)
  with srv_other show ?case by (simp add: order_of_def ahead_def turn_rank_def)
qed

text \<open>While it evaluates, a connection sends displays of its request; then its result.\<close>

lemma evaluating_step:
  assumes "server_step s t" and "lock_inv s" and "srv_conns s c = ConnEvaluating rid"
  shows "(\<exists>texts. srv_out t c = srv_out s c @ map (Display rid) texts) \<and>
       srv_conns t c = ConnEvaluating rid \<and> srv_lock t = srv_lock s \<or>
     (\<exists>outcome. srv_out t c = srv_out s c @ [EvalResult rid outcome]) \<and> srv_conns t c = ConnReading \<and>
       srv_lock t = None"
  using assms
proof (induction rule: server_step.induct)
  case (srv_acquire s d q rid')
  then show ?case by (auto simp: lock_inv_def lock_ok_def)
next
  case (srv_display s d rid' msg)
  have "d = c" using srv_display lock_ok_evaluating(4) by (auto simp: lock_inv_def)
  then have "display_responses c [display_output (srv_ctx s) msg] = map (Display rid) [msg]"
    using srv_display by (simp add: lock_inv_def lock_ok_evaluating(3) display_responses_def)
  with srv_display.prems show ?case by (auto intro: exI [of _ "[msg]"])
next
  case (srv_finish s d rid' outcome ctx')
  then have "d = c" using lock_ok_evaluating(4) by (auto simp: lock_inv_def)
  with srv_finish show ?case by auto
qed auto

interpretation turn: leads_to server_step lock_inv "\<lambda>s. srv_conns s c = ConnQueued rid"
  "\<lambda>s. srv_conns s c = ConnEvaluating rid" "turn_rank c" lock_changes
  for c rid
proof
  fix s t :: "('cfg, 'ib, 'l) server"
  assume "server_step s t" and "lock_inv s"
  then show "lock_inv t" by (rule lock_inv_step)
next
  fix s t :: "('cfg, 'ib, 'l) server"
  assume "server_step s t" and "lock_inv s" and "srv_conns s c = ConnQueued rid"
  from queued_step [OF this]
  show "srv_conns t c = ConnEvaluating rid \<or> srv_conns t c = ConnQueued rid \<and> turn_rank c t \<le> turn_rank c s"
    by auto
next
  fix s t :: "('cfg, 'ib, 'l) server"
  assume "server_step s t" and "lock_inv s" and "srv_conns s c = ConnQueued rid" and "lock_changes s t"
  from queued_step [OF this(1-3)] this(4)
  show "srv_conns t c = ConnEvaluating rid \<or> turn_rank c t < turn_rank c s"
    by (auto simp: lock_changes_def)
qed

section \<open>Every submitted evaluation is answered\<close>

lemma server_run_inv:
  assumes "server_run \<sigma>"
  shows "lock_inv (\<sigma> i)" and "server_step (\<sigma> i) (\<sigma> (Suc i))" and "run_of server_step \<sigma>"
proof -
  have run: "run_of server_step \<sigma>" and "lock_inv (\<sigma> 0)"
    using assms streams.always by (auto simp: server_run_def)
  then show "lock_inv (\<sigma> i)" by (rule turn.inv_run)
  from run show "server_step (\<sigma> i) (\<sigma> (Suc i))" and "run_of server_step \<sigma>"
    by (simp_all add: run_of_def)
qed

lemma evaluation_leaves:
  assumes "server_run \<sigma>" and "evaluations_end \<sigma>" and "srv_conns (\<sigma> i) c = ConnEvaluating rid"
  shows "\<exists>k \<ge> i. (\<forall>m. i \<le> m \<and> m \<le> k \<longrightarrow> srv_conns (\<sigma> m) c = ConnEvaluating rid) \<and>
    srv_conns (\<sigma> (Suc k)) c \<noteq> ConnEvaluating rid"
proof -
  from assms(2,3) obtain j where "i \<le> j" and "srv_conns (\<sigma> j) c \<noteq> ConnEvaluating rid"
    unfolding evaluations_end_def by blast
  from run_leaves [of i j "\<lambda>s. srv_conns s c = ConnEvaluating rid", OF this(1) assms(3) this(2)]
  show ?thesis .
qed

lemma lock_keeps_changing:
  assumes "server_run \<sigma>" and "evaluations_end \<sigma>" and "lock_handed_over \<sigma>"
    and "srv_conns (\<sigma> i) c = ConnQueued rid"
  shows "\<exists>j \<ge> i. lock_changes (\<sigma> j) (\<sigma> (Suc j))"
proof (cases "srv_lock (\<sigma> i)")
  case None
  have "srv_queue (\<sigma> i) \<noteq> []"
    using in_queue [OF server_run_inv(1) [OF assms(1)] assms(4)] by auto
  with None assms(3) obtain j where "i \<le> j" and "srv_lock (\<sigma> j) \<noteq> None"
    unfolding lock_handed_over_def by blast
  from run_leaves [of i j "\<lambda>s. srv_lock s = None", OF this(1) None this(2)]
  obtain k where "i \<le> k" "srv_lock (\<sigma> k) = None" "srv_lock (\<sigma> (Suc k)) \<noteq> None" by auto
  then show ?thesis by (intro exI [of _ k]) (auto simp: lock_changes_def)
next
  case (Some d)
  then obtain rid' where "srv_conns (\<sigma> i) d = ConnEvaluating rid'"
    using server_run_inv(1) [OF assms(1), of i] by (auto simp: lock_inv_def lock_ok_def)
  from evaluation_leaves [OF assms(1,2) this]
  obtain k where k: "i \<le> k" "srv_conns (\<sigma> k) d = ConnEvaluating rid'"
      "srv_conns (\<sigma> (Suc k)) d \<noteq> ConnEvaluating rid'" by auto
  have inv: "lock_inv (\<sigma> k)" by (rule server_run_inv(1) [OF assms(1)])
  have "srv_lock (\<sigma> (Suc k)) = None"
    using evaluating_step [OF server_run_inv(2) [OF assms(1)] inv k(2)] k(3) by auto
  moreover have "srv_lock (\<sigma> k) = Some d"
    using inv k(2) by (simp add: lock_inv_def lock_ok_evaluating(1))
  ultimately show ?thesis using k(1) by (intro exI [of _ k]) (simp add: lock_changes_def)
qed

lemma while_queued:
  assumes "server_run \<sigma>" and "i \<le> j"
    and "\<forall>m. i \<le> m \<and> m \<le> j \<longrightarrow> srv_conns (\<sigma> m) c = ConnQueued rid"
  shows "srv_out (\<sigma> j) c = srv_out (\<sigma> i) c \<and> order_of c (\<sigma> j) = order_of c (\<sigma> i)"
  using assms(2,3)
proof (induction j rule: dec_induct)
  case (step n)
  then have q: "srv_conns (\<sigma> n) c = ConnQueued rid" "srv_conns (\<sigma> (Suc n)) c = ConnQueued rid"
    by auto
  from queued_step [OF server_run_inv(2,1) [OF assms(1)] q(1)] q(2)
  have "srv_out (\<sigma> (Suc n)) c = srv_out (\<sigma> n) c \<and> order_of c (\<sigma> (Suc n)) = order_of c (\<sigma> n)"
    by auto
  with step show ?case by simp
qed simp

lemma while_evaluating:
  assumes "server_run \<sigma>" and "i \<le> j"
    and "\<forall>m. i \<le> m \<and> m \<le> j \<longrightarrow> srv_conns (\<sigma> m) c = ConnEvaluating rid"
  shows "\<exists>texts. srv_out (\<sigma> j) c = srv_out (\<sigma> i) c @ map (Display rid) texts"
  using assms(2,3)
proof (induction j rule: dec_induct)
  case (step n)
  then obtain texts where texts: "srv_out (\<sigma> n) c = srv_out (\<sigma> i) c @ map (Display rid) texts"
    and e: "srv_conns (\<sigma> n) c = ConnEvaluating rid" "srv_conns (\<sigma> (Suc n)) c = ConnEvaluating rid"
    by auto
  from evaluating_step [OF server_run_inv(2,1) [OF assms(1)] e(1)] e(2)
  obtain more where "srv_out (\<sigma> (Suc n)) c = srv_out (\<sigma> n) c @ map (Display rid) more" by auto
  with texts show ?case by (intro exI [of _ "texts @ more"]) simp
qed simp

lemma queued_runs:
  assumes "server_run \<sigma>" and "evaluations_end \<sigma>" and "lock_handed_over \<sigma>"
    and "srv_conns (\<sigma> i) c = ConnQueued rid"
  shows "\<exists>j k texts outcome. i < j \<and> j \<le> k \<and>
    srv_acq (\<sigma> j) = srv_acq (\<sigma> i) @ map (job_of (\<sigma> i)) (ahead c (\<sigma> i)) @ [(c, rid)] \<and>
    srv_conns (\<sigma> j) c = ConnEvaluating rid \<and> srv_conns (\<sigma> k) c = ConnEvaluating rid \<and>
    srv_conns (\<sigma> (Suc k)) c = ConnReading \<and>
    srv_out (\<sigma> (Suc k)) c = srv_out (\<sigma> i) c @ map (Display rid) texts @ [EvalResult rid outcome]"
proof -
  have "\<exists>j > i. srv_conns (\<sigma> j) c = ConnEvaluating rid \<and>
      (\<forall>m. i \<le> m \<and> m < j \<longrightarrow> srv_conns (\<sigma> m) c = ConnQueued rid)"
    by (rule turn.reaches_until [OF server_run_inv(3,1) [OF assms(1)] lock_keeps_changing [OF assms(1-3)] assms(4)])
  then obtain j where j: "i < j" "srv_conns (\<sigma> j) c = ConnEvaluating rid"
    and before: "\<forall>m. i \<le> m \<and> m < j \<longrightarrow> srv_conns (\<sigma> m) c = ConnQueued rid" by auto
  obtain n where n: "j = Suc n" "i \<le> n" using j(1) by (cases j) auto
  have queued: "srv_out (\<sigma> n) c = srv_out (\<sigma> i) c" "order_of c (\<sigma> n) = order_of c (\<sigma> i)"
    using while_queued [OF assms(1) n(2), of c rid] before n(1) by (simp_all add: less_Suc_eq_le)
  have "srv_conns (\<sigma> n) c = ConnQueued rid" using before n by simp
  from queued_step [OF server_run_inv(2,1) [OF assms(1)] this] j(2) n(1) queued
  have begun: "srv_out (\<sigma> j) c = srv_out (\<sigma> i) c" "srv_acq (\<sigma> j) = order_of c (\<sigma> i) @ [(c, rid)]"
    by auto
  from evaluation_leaves [OF assms(1,2) j(2)]
  obtain k where k: "j \<le> k" "\<forall>m. j \<le> m \<and> m \<le> k \<longrightarrow> srv_conns (\<sigma> m) c = ConnEvaluating rid"
    and left: "srv_conns (\<sigma> (Suc k)) c \<noteq> ConnEvaluating rid" by auto
  from while_evaluating [OF assms(1) k] obtain texts
    where texts: "srv_out (\<sigma> k) c = srv_out (\<sigma> j) c @ map (Display rid) texts" ..
  have "srv_conns (\<sigma> k) c = ConnEvaluating rid" using k by simp
  from evaluating_step [OF server_run_inv(2,1) [OF assms(1)] this] left
  obtain outcome where "srv_conns (\<sigma> (Suc k)) c = ConnReading"
    "srv_out (\<sigma> (Suc k)) c = srv_out (\<sigma> k) c @ [EvalResult rid outcome]" by auto
  with j k begun texts show ?thesis
    by (intro exI [of _ j] exI [of _ k] exI [of _ texts] exI [of _ outcome]) (simp add: order_of_def)
qed

text \<open>
  C8.  Every submitted evaluation is answered: in a run in which evaluations end and a free lock is
  handed over, a queued connection begins evaluating after exactly the evaluations that were ahead
  of it in the queue, none of them later submitted ones, and then receives its displays and its
  result, with nothing else on its stream in between.
\<close>

theorem queued_evaluation_answered:
  assumes "server_run \<sigma>" and "evaluations_end \<sigma>" and "lock_handed_over \<sigma>"
    and "srv_conns (\<sigma> i) c = ConnQueued rid"
  shows "\<exists>j k texts outcome. i < j \<and> j < k \<and>
    srv_acq (\<sigma> j) = srv_acq (\<sigma> i) @ map (job_of (\<sigma> i)) (ahead c (\<sigma> i)) @ [(c, rid)] \<and>
    srv_conns (\<sigma> j) c = ConnEvaluating rid \<and> srv_conns (\<sigma> k) c = ConnReading \<and>
    srv_out (\<sigma> k) c = srv_out (\<sigma> i) c @ map (Display rid) texts @ [EvalResult rid outcome]"
  using queued_runs [OF assms] by (meson le_imp_less_Suc)

text \<open>
  A run from the sample state: connection 4 finishes, connection 2 takes the lock and finishes,
  and nothing more happens.
\<close>

definition busy_1 :: "(unit, unit, unit) server" where
  "busy_1 = sample_busy\<lparr>srv_conns := (srv_conns sample_busy)(4 := ConnReading), srv_lock := None,
     srv_ctx := set_display_sink None (srv_ctx sample_busy),
     srv_out := (srv_out sample_busy)(4 := srv_out sample_busy 4 @ [EvalResult 9 (Ok None)])\<rparr>"

definition busy_2 :: "(unit, unit, unit) server" where
  "busy_2 = busy_1\<lparr>srv_conns := (srv_conns busy_1)(2 := ConnEvaluating 1), srv_lock := Some 2,
     srv_queue := [], srv_acq := srv_acq busy_1 @ [(2, 1)],
     srv_ctx := set_display_sink (Some (Sink 2 1)) (srv_ctx busy_1)\<rparr>"

definition busy_3 :: "(unit, unit, unit) server" where
  "busy_3 = busy_2\<lparr>srv_conns := (srv_conns busy_2)(2 := ConnReading), srv_lock := None,
     srv_ctx := set_display_sink None (srv_ctx busy_2),
     srv_out := (srv_out busy_2)(2 := srv_out busy_2 2 @ [EvalResult 1 (Ok None)])\<rparr>"

definition busy_run :: "nat \<Rightarrow> (unit, unit, unit) server" where
  "busy_run n = (if n = 0 then sample_busy else if n = 1 then busy_1 else if n = 2 then busy_2 else busy_3)"

lemma busy_run_server: "server_run busy_run"
proof -
  have "server_step sample_busy busy_1"
    unfolding busy_1_def by (rule srv_finish [where rid = 9]) (simp add: sample_busy_def)
  moreover have "server_step busy_1 busy_2"
    unfolding busy_2_def by (rule srv_acquire) (simp_all add: busy_1_def sample_busy_def)
  moreover have "server_step busy_2 busy_3"
    unfolding busy_3_def by (rule srv_finish [where rid = 1]) (simp add: busy_2_def)
  moreover have "server_step busy_3 busy_3"
    using srv_other [of "srv_ctx busy_3" busy_3] by simp
  ultimately have "server_step (busy_run i) (busy_run (Suc i))" for i
    by (auto simp: busy_run_def)
  then show ?thesis by (simp add: server_run_def run_of_def sample_busy_reachable busy_run_def [of 0])
qed

lemma busy_3_idle: "srv_lock busy_3 = None" "srv_queue busy_3 = []" "srv_conns busy_3 c \<noteq> ConnEvaluating rid"
  by (simp_all add: busy_3_def busy_2_def busy_1_def sample_busy_def)

lemma busy_run_fair: "evaluations_end busy_run" "lock_handed_over busy_run"
proof -
  have "\<exists>j \<ge> i. srv_conns (busy_run j) c \<noteq> ConnEvaluating rid" for i c rid
    by (intro exI [of _ "i + 3"]) (simp add: busy_run_def busy_3_idle)
  then show "evaluations_end busy_run" unfolding evaluations_end_def by blast
  have "i \<le> 2" if "srv_queue (busy_run i) \<noteq> []" for i
    using that by (auto simp: busy_run_def busy_3_idle split: if_splits)
  moreover have "srv_lock (busy_run 2) \<noteq> None" by (simp add: busy_run_def busy_2_def)
  ultimately show "lock_handed_over busy_run" unfolding lock_handed_over_def by blast
qed

lemma busy_run_0: "busy_run 0 = sample_busy"
  by (simp add: busy_run_def)

theorem queued_evaluation_answered_witness:
  "\<exists>j k texts outcome. 0 < j \<and> j < k \<and> srv_acq (busy_run j) = [(4, 9), (2, 1)] \<and>
    srv_out (busy_run k) 2 = map (Display 1) texts @ [EvalResult 1 outcome]"
  using queued_evaluation_answered [OF busy_run_server busy_run_fair, of 0 2 1]
  unfolding busy_run_0 by (simp add: sample_busy_def ahead_def) blast

section \<open>One evaluation that never ends\<close>

lemma holder_blocks:
  assumes "server_run \<sigma>" and "\<forall>j \<ge> i. srv_conns (\<sigma> j) c = ConnEvaluating rid"
    and "srv_conns (\<sigma> i) d = ConnQueued rid'" and "i \<le> j"
  shows "srv_conns (\<sigma> j) d = ConnQueued rid'"
  using assms(4)
proof (induction j rule: dec_induct)
  case (step n)
  have "srv_lock (\<sigma> n) = Some c"
    using server_run_inv(1) [OF assms(1), of n] assms(2) step.hyps
    by (simp add: lock_inv_def lock_ok_evaluating(1))
  with queued_step [OF server_run_inv(2,1) [OF assms(1)] step.IH] show ?case by auto
qed (fact assms(3))

text \<open>
  C29.  Fairness is needed: an evaluation that never ends, such as a call to an actor that never
  answers, keeps the lock, and every evaluation that any other connection has queued or queues
  later stays queued for ever, with nothing more on its stream.
\<close>

theorem endless_evaluation_blocks_all:
  assumes "server_run \<sigma>" and "\<forall>j \<ge> i. srv_conns (\<sigma> j) c = ConnEvaluating rid"
    and "i \<le> n" and "srv_conns (\<sigma> n) d = ConnQueued rid'" and "n \<le> j"
  shows "srv_conns (\<sigma> j) d = ConnQueued rid' \<and> srv_out (\<sigma> j) d = srv_out (\<sigma> n) d"
proof -
  have "srv_conns (\<sigma> m) d = ConnQueued rid'" if "n \<le> m" for m
    using assms(2,3) that by (intro holder_blocks [OF assms(1) _ assms(4), of c rid]) auto
  then show ?thesis using while_queued [OF assms(1,5), of d rid'] assms(5) by simp
qed

theorem endless_evaluation_blocks_all_witness:
  "srv_conns ((\<lambda>_ :: nat. sample_busy) 7) 2 = ConnQueued 1"
proof -
  have run: "server_run (\<lambda>_. sample_busy)"
    by (simp add: server_run_def run_of_def sample_busy_reachable server_stutters)
  have "srv_conns sample_busy 4 = ConnEvaluating 9" "srv_conns sample_busy 2 = ConnQueued 1"
    by (simp_all add: sample_busy_def)
  with endless_evaluation_blocks_all [OF run, of 0 4 9 0 2 1 7] show ?thesis by simp
qed

section \<open>A registered call is answered\<close>

definition call_inv ::
  "('did, 'key, 'msg, 'ob) ma_core \<Rightarrow> (bytes \<Rightarrow> (rstr, 'l scheme_val) result) \<Rightarrow>
     ('cfg, 'msg, 'l) call_sys \<Rightarrow> bool" where
  "call_inv core decode s \<longleftrightarrow> ids_inv s \<and> route_inv core decode s"

definition reply_waiting ::
  "('did, 'key, 'msg, 'ob) ma_core \<Rightarrow> rstr \<Rightarrow> nat \<Rightarrow> ('cfg, 'msg, 'l) call_sys \<Rightarrow> bool" where
  "reply_waiting core mid ch s \<longleftrightarrow>
     sys_phase s ch = CallAwaiting mid \<and> reply_senders (sys_ctx s) mid = Some ch \<and>
     (\<exists>m \<in> set (inbox (sys_ctx s)). message_reply_to core m = Some mid)"

definition reply_given ::
  "('did, 'key, 'msg, 'ob) ma_core \<Rightarrow> (bytes \<Rightarrow> (rstr, 'l scheme_val) result) \<Rightarrow> rstr \<Rightarrow> nat \<Rightarrow>
     ('cfg, 'msg, 'l) call_sys \<Rightarrow> bool" where
  "reply_given core decode mid ch s \<longleftrightarrow>
     (\<exists>m \<in> set (sys_arrived s). message_reply_to core m = Some mid \<and>
        chans (sys_ctx s) ch = ChanSent (decode (message_payload core m)))"

lemma call_inv_step: "call_step core decode drain s t \<Longrightarrow> call_inv core decode s \<Longrightarrow> call_inv core decode t"
  by (auto simp: call_inv_def intro: ids_inv_step route_inv_step)

text \<open>A drain that takes everything: after a poll the inbox is empty.\<close>

definition drain_all :: "u64 \<Rightarrow> 'msg list \<Rightarrow> 'msg list \<times> 'msg list" where
  "drain_all now q = (q, [])"

lemma reply_waiting_step:
  assumes "call_step core decode drain_all s t" and "call_inv core decode s" and "reply_waiting core mid ch s"
  shows "reply_given core decode mid ch t \<or> reply_waiting core mid ch t \<and> inbox (sys_ctx t) \<noteq> []"
  using assms
proof (induction rule: call_step.induct)
  case (call_sent s c k)
  then have "c \<noteq> ch" and aw: "sys_phase s ch = CallAwaiting mid" by (auto simp: reply_waiting_def)
  moreover have "k \<noteq> mid"
  proof
    assume "k = mid"
    with call_sent.hyps have "call_id (sys_phase s c) = Some mid" by simp
    moreover have "call_id (sys_phase s ch) = Some mid" using aw by simp
    ultimately show False
      using call_sent.prems(1) \<open>c \<noteq> ch\<close> unfolding call_inv_def ids_inv_def by blast
  qed
  ultimately show ?case
    using call_sent.prems(2) by (auto simp: reply_waiting_def register_reply_sender_def)
next
  case (call_poll now s ms ib)
  let ?q = "inbox (sys_ctx s)"
  have d: "drain_all now ?q = (?q, [])" by (simp add: drain_all_def)
  have inv: "route_inv core decode s" using call_poll.prems(1) by (simp add: call_inv_def)
  have reg: "reply_senders (sys_ctx s) mid = Some ch"
    and "\<exists>m \<in> set ?q. message_reply_to core m = Some mid"
    using call_poll.prems(2) by (simp_all add: reply_waiting_def)
  then obtain m where m: "find (\<lambda>m. message_reply_to core m = Some mid) ?q = Some m"
    by (cases "find (\<lambda>m. message_reply_to core m = Some mid) ?q") (auto simp: find_None_iff)
  then have "m \<in> set ?q" and reply: "message_reply_to core m = Some mid"
    by (auto simp: find_Some_iff)
  then have "m \<in> set (sys_arrived s)" using route_inv_D(1) [OF inv] by auto
  with reply show ?case
    using poll_delivers_first [where drain = drain_all and core = core and decode = decode, OF route_inv_table_ok [OF inv] reg d] m
    by (auto simp: reply_given_def)
qed (auto simp: reply_waiting_def)

interpretation answered: leads_to "call_step core decode drain_all" "call_inv core decode"
  "reply_waiting core mid ch" "reply_given core decode mid ch" "\<lambda>_. 0" "\<lambda>_ t. inbox (sys_ctx t) = []"
  for core :: "('did, 'key, 'msg, 'ob) ma_core"
    and decode :: "bytes \<Rightarrow> (rstr, 'l scheme_val) result" and mid ch
proof
  fix s t :: "('cfg, 'msg, 'l) call_sys"
  assume step: "call_step core decode drain_all s t" and inv: "call_inv core decode s"
  then show "call_inv core decode t" by (rule call_inv_step)
  assume waiting: "reply_waiting core mid ch s"
  note next_state = reply_waiting_step [OF step inv waiting]
  show "reply_given core decode mid ch t \<or> reply_waiting core mid ch t \<and> (0 :: nat) \<le> 0"
    using next_state by auto
  show "reply_given core decode mid ch t \<or> (0 :: nat) < 0" if "inbox (sys_ctx t) = []"
    using next_state that by auto
qed

lemma await_reply_sent: "await_reply (ChanSent r) = Some (map_err MaError r)"
  by (cases r) simp_all

text \<open>
  C15.  A call that has registered is answered: if the inbox is emptied again and again, then once a
  reply to its message is in the inbox the call finishes, with a reply to its own message.
\<close>

theorem registered_call_answered:
  fixes \<sigma> :: "nat \<Rightarrow> ('cfg, 'msg, 'l) call_sys"
  assumes "run_of (call_step core decode drain_all) \<sigma>"
    and "reachable call_init (call_step core decode drain_all) (\<sigma> 0)"
    and polls: "\<And>i. \<exists>j \<ge> i. inbox (sys_ctx (\<sigma> j)) = []"
    and "sys_phase (\<sigma> i) ch = CallAwaiting mid" and "await_reply (chans (sys_ctx (\<sigma> i)) ch) = None"
    and "m \<in> set (inbox (sys_ctx (\<sigma> i)))" and "message_reply_to core m = Some mid"
  shows "\<exists>j > i. \<exists>m' \<in> set (sys_arrived (\<sigma> j)). message_reply_to core m' = Some mid \<and>
    await_reply (chans (sys_ctx (\<sigma> j)) ch) = Some (map_err MaError (decode (message_payload core m')))"
proof -
  have inv0: "call_inv core decode (\<sigma> 0)"
    using call_routing.both.always [OF assms(2)] by (simp add: call_inv_def)
  then have "call_inv core decode (\<sigma> i)" by (rule answered.inv_run [OF assms(1)])
  then have "route_inv core decode (\<sigma> i)" by (simp add: call_inv_def)
  from route_inv_D(3) [OF this assms(4)] have "reply_waiting core mid ch (\<sigma> i)"
    using assms(4-7) by (auto simp: reply_waiting_def await_reply_sent)
  moreover have "\<exists>j \<ge> k. inbox (sys_ctx (\<sigma> (Suc j))) = []" for k
    using polls [of "Suc k"] by (metis Suc_le_D Suc_le_mono)
  ultimately have "\<exists>j > i. reply_given core decode mid ch (\<sigma> j)"
    by (intro answered.reaches [OF assms(1) inv0])
  then obtain j m' where "i < j" "m' \<in> set (sys_arrived (\<sigma> j))" "message_reply_to core m' = Some mid"
    "chans (sys_ctx (\<sigma> j)) ch = ChanSent (decode (message_payload core m'))"
    by (auto simp: reply_given_def)
  then show ?thesis by (intro exI [of _ j] conjI bexI [of _ m']) (simp_all add: await_reply_sent)
qed

text \<open>A call that has registered and whose reply is in the inbox; then a poll, and nothing more.\<close>

definition early_sys :: "(unit, rstr \<times> rstr option \<times> bytes, unit) call_sys" where
  "early_sys = sample_sys\<lparr>sys_phase := (sys_phase sample_sys)(0 := CallSending (lit ''m1'')),
     sys_used := insert (lit ''m1'') (sys_used sample_sys)\<rparr>"

definition registered_sys :: "(unit, rstr \<times> rstr option \<times> bytes, unit) call_sys" where
  "registered_sys = early_sys\<lparr>sys_phase := (sys_phase early_sys)(0 := CallAwaiting (lit ''m1'')),
     sys_ctx := register_reply_sender (lit ''m1'') 0
       ((sys_ctx early_sys)\<lparr>chans := (chans (sys_ctx early_sys))(0 := ChanOpen)\<rparr>)\<rparr>"

definition replied_sys :: "(unit, rstr \<times> rstr option \<times> bytes, unit) call_sys" where
  "replied_sys = registered_sys\<lparr>
     sys_ctx := (sys_ctx registered_sys)\<lparr>inbox := inbox (sys_ctx registered_sys) @ [([], Some (lit ''m1''), [5])]\<rparr>,
     sys_arrived := sys_arrived registered_sys @ [([], Some (lit ''m1''), [5])]\<rparr>"

definition polled_sys :: "(unit, rstr \<times> rstr option \<times> bytes, unit) call_sys" where
  "polled_sys = replied_sys\<lparr>
     sys_ctx := poll_replies drain_all sample_core (\<lambda>p. Ok (SBytes p)) 0 (sys_ctx replied_sys)\<rparr>"

abbreviation drain_step ::
  "(unit, rstr \<times> rstr option \<times> bytes, unit) call_sys \<Rightarrow> (unit, rstr \<times> rstr option \<times> bytes, unit) call_sys \<Rightarrow> bool"
where
  "drain_step \<equiv> call_step sample_core (\<lambda>p. Ok (SBytes p)) drain_all"

lemma sample_call_run:
  "reachable call_init drain_step replied_sys" "drain_step replied_sys polled_sys" "drain_step polled_sys polled_sys"
  "inbox (sys_ctx polled_sys) = []"
proof -
  have "drain_step sample_sys early_sys"
    unfolding early_sys_def by (rule call_send) (simp_all add: sample_sys_def)
  moreover have "drain_step early_sys registered_sys"
    unfolding registered_sys_def by (rule call_sent) (simp add: early_sys_def)
  moreover have "drain_step registered_sys replied_sys"
    unfolding replied_sys_def by (rule call_arrive)
  ultimately show "reachable call_init drain_step replied_sys"
    by (meson reach_init [where init = call_init, OF call_init_sample] reach_step)
  show "drain_step replied_sys polled_sys"
    unfolding polled_sys_def by (rule call_poll [where ms = "inbox (sys_ctx replied_sys)" and ib = "[]"]) (simp_all add: drain_all_def)
  show empty: "inbox (sys_ctx polled_sys) = []"
    unfolding polled_sys_def by (simp add: poll_inbox drain_all_def)
  have "polled_sys\<lparr>sys_ctx := poll_replies drain_all sample_core (\<lambda>p. Ok (SBytes p)) 0 (sys_ctx polled_sys)\<rparr> = polled_sys"
    using empty by (simp add: poll_replies_def drain_all_def cli_ctx.equality)
  then show "drain_step polled_sys polled_sys"
    using call_poll [of drain_all 0 polled_sys "[]" "[]" sample_core "\<lambda>p. Ok (SBytes p)"] empty
    by (simp add: drain_all_def)
qed

theorem registered_call_answered_witness:
  "\<exists>j > 0. \<exists>m' \<in> set (sys_arrived ((case_nat replied_sys (\<lambda>_. polled_sys)) j)).
     message_reply_to sample_core m' = Some (lit ''m1'')"
proof -
  let ?\<sigma> = "case_nat replied_sys (\<lambda>_. polled_sys)"
  have run: "run_of drain_step ?\<sigma>"
    using sample_call_run(2,3) by (auto simp: run_of_def split: nat.split)
  have start: "reachable call_init drain_step (?\<sigma> 0)" using sample_call_run(1) by simp
  have polls: "\<exists>j \<ge> i. inbox (sys_ctx (?\<sigma> j)) = []" for i
    by (intro exI [of _ "Suc i"]) (simp add: sample_call_run(4))
  have "sys_phase (?\<sigma> 0) 0 = CallAwaiting (lit ''m1'')"
    and "await_reply (chans (sys_ctx (?\<sigma> 0)) 0) = None"
    and "([], Some (lit ''m1''), [5]) \<in> set (inbox (sys_ctx (?\<sigma> 0)))"
    by (simp_all add: replied_sys_def registered_sys_def early_sys_def sample_sys_def sample_ctx_def
        register_reply_sender_def)
  from registered_call_answered [OF run start polls this] show ?thesis by (auto simp: sample_core_def)
qed

end
