(* ===== verification/Zs_Layers.thy ===== *)
theory Zs_Layers
  imports Zs_Serial Zs_Progress
begin

text \<open>
  The layers of the daemon's model, put together: the machine over the evaluator (\<open>Zs_Serial\<close>)
  refines the machine that leaves the evaluator open (\<open>Zs_Server\<close>), which refines the first-in
  first-out queue.  So the safety and progress of the upper layers hold of the lower one, whose
  answers are the sequential ones.
\<close>

section \<open>The abstraction\<close>

fun phase_abs :: "('e, 'cfg, 'ib, 'l) run_phase \<Rightarrow> conn_phase" where
  "phase_abs RunIdle = ConnReading"
| "phase_abs (RunQueued rid source isolated) = ConnQueued rid"
| "phase_abs (RunEval rid source isolated texts outcome ienv' env' ctx') = ConnEvaluating rid"
| "phase_abs RunEnded = ConnEnded"

fun job_id :: "nat \<times> request \<Rightarrow> job list" where
  "job_id (c, Eval rid source isolated) = [(c, rid)]"
| "job_id job = []"

definition ids_of :: "(nat \<times> request) list \<Rightarrow> job list" where
  "ids_of jobs = concat (map job_id jobs)"

lemma ids_of_simps [simp]:
  "ids_of [] = []"
  "ids_of (job # jobs) = job_id job @ ids_of jobs"
  "ids_of (xs @ ys) = ids_of xs @ ids_of ys"
  by (simp_all add: ids_of_def)

lemma job_id_other [simp]: "\<not> is_eval req \<Longrightarrow> job_id (c, req) = []"
  by (cases req) simp_all

definition server_abs :: "('e, 'cfg, 'ib, 'l) conc \<Rightarrow> ('cfg, 'ib, 'l) server" where
  "server_abs s =
     \<lparr>srv_ctx = d_ctx (cc_daemon s), srv_conns = phase_abs \<circ> cc_phase s, srv_lock = cc_lock s,
      srv_queue = cc_queue s, srv_out = cc_out s, srv_stdout = [], srv_enq = ids_of (cc_submitted s),
      srv_acq = ids_of (cc_log s) @
        (case cc_lock s of None \<Rightarrow> [] | Some c \<Rightarrow> ids_of (jobs_of (cc_phase s) [c]))\<rparr>"

lemma server_abs_simps [simp]:
  "srv_ctx (server_abs s) = d_ctx (cc_daemon s)"
  "srv_conns (server_abs s) c = phase_abs (cc_phase s c)"
  "srv_lock (server_abs s) = cc_lock s"
  "srv_queue (server_abs s) = cc_queue s"
  "srv_out (server_abs s) = cc_out s"
  by (simp_all add: server_abs_def)

section \<open>The simulation\<close>

definition run_inv ::
  "('e, 'cfg, 'ib, 'l) engine \<Rightarrow> ('e, 'cfg, 'ib, 'l) daemon \<Rightarrow> ('e, 'cfg, 'ib, 'l) conc \<Rightarrow> bool" where
  "run_inv eng d0 s \<longleftrightarrow> holder_inv s \<and> serial_inv eng d0 s"

lemma run_inv_sink:
  assumes "run_inv eng d0 s"
    and "cc_phase s c = RunEval rid source isolated texts outcome ienv' env' ctx'"
  shows "display_output (d_ctx (cc_daemon s)) msg = ToSink c rid msg"
proof -
  have "cc_lock s = Some c"
    using assms running_free(2) [of s c] by (simp add: run_inv_def)
  with assms show ?thesis
    by (auto simp: run_inv_def serial_inv_def mid_evaluation_def display_output_sink)
qed

lemma simple_request:
  assumes "handle_request eng c req ienv d = (rs, ienv', d', go)" and "\<not> is_eval req"
  shows "\<exists>r. rs = [r] \<and> answers req r \<and> d_ctx d' = d_ctx d \<and> (go \<longleftrightarrow> req \<noteq> Stop)"
  using assms by (cases req) (auto simp: handle_request_def)

lemma conc_simulates:
  assumes "conc_step eng s t" and "run_inv eng d0 s"
  shows "server_step (server_abs s) (server_abs t)"
  using assms
proof (induction rule: conc_step.induct)
  case (conc_simple s c req reqs rs ienv' d' go)
  have free: "cc_lock s \<noteq> Some c"
    using conc_simple.prems conc_simple.hyps(1) idle_free(2) by (auto simp: run_inv_def)
  from simple_request [OF conc_simple.hyps(5,3)] obtain r
    where r: "rs = [r]" "answers req r" "d_ctx d' = d_ctx (cc_daemon s)" "go \<longleftrightarrow> req \<noteq> Stop" by blast
  have jobs: "ids_of (jobs_of ((cc_phase s)(c := p)) [k]) = ids_of (jobs_of (cc_phase s) [k])"
    if "cc_lock s = Some k" for p k
    using free that by auto
  show ?case
  proof (cases "req = Stop")
    case True
    then have rs: "rs = [Stopping]" "\<not> go" using r by auto
    have "server_step (server_abs s) ((server_abs s)\<lparr>
        srv_out := (srv_out (server_abs s))(c := srv_out (server_abs s) c @ [Stopping]),
        srv_conns := (srv_conns (server_abs s))(c := ConnEnded)\<rparr>)"
      using conc_simple.hyps(1) by (intro srv_stop) simp
    then show ?thesis using True r(3) jobs conc_simple.hyps(3) rs
      by (auto simp: server_abs_def fun_upd_comp split: option.splits)
  next
    case False
    then have go: go using r by simp
    have "server_step (server_abs s) ((server_abs s)\<lparr>
        srv_out := (srv_out (server_abs s))(c := srv_out (server_abs s) c @ [r])\<rparr>)"
      using conc_simple.hyps(1,3) False r(2) by (intro srv_simple) simp_all
    moreover have "phase_abs \<circ> (cc_phase s)(c := RunIdle) = phase_abs \<circ> cc_phase s"
      using conc_simple.hyps(1) by (simp add: fun_upd_comp fun_eq_iff)
    ultimately show ?thesis using r(1,3) jobs conc_simple.hyps(3) go
      by (auto simp: server_abs_def split: option.splits)
  qed
next
  case (conc_submit s c rid source isolated reqs)
  have free: "cc_lock s \<noteq> Some c"
    using conc_submit.prems conc_submit.hyps(1) idle_free(2) by (auto simp: run_inv_def)
  have "server_step (server_abs s) ((server_abs s)\<lparr>srv_conns := (srv_conns (server_abs s))(c := ConnQueued rid),
      srv_queue := srv_queue (server_abs s) @ [c], srv_enq := srv_enq (server_abs s) @ [(c, rid)]\<rparr>)"
    using conc_submit.hyps(1) by (intro srv_submit) simp
  then show ?case using free by (auto simp: server_abs_def fun_upd_comp split: option.splits)
next
  case (conc_acquire s c q rid source isolated ctx texts r ienv' env' ctx')
  have "server_step (server_abs s) ((server_abs s)\<lparr>srv_conns := (srv_conns (server_abs s))(c := ConnEvaluating rid),
      srv_lock := Some c, srv_queue := q, srv_acq := srv_acq (server_abs s) @ [(c, rid)],
      srv_ctx := set_display_sink (Some (Sink c rid)) (srv_ctx (server_abs s))\<rparr>)"
    using conc_acquire.hyps(1-3) by (intro srv_acquire) simp_all
  then show ?case using conc_acquire.hyps by (simp add: server_abs_def fun_upd_comp)
next
  case (conc_display s c rid source isolated msg texts outcome ienv' env' ctx')
  have sink: "display_output (d_ctx (cc_daemon s)) msg = ToSink c rid msg"
    by (rule run_inv_sink [OF conc_display.prems conc_display.hyps])
  have lock: "cc_lock s = Some c"
    using conc_display running_free(2) [of s c] by (simp add: run_inv_def)
  have "server_step (server_abs s) ((server_abs s)\<lparr>
      srv_out := (\<lambda>k. srv_out (server_abs s) k @
        display_responses k [display_output (srv_ctx (server_abs s)) msg]),
      srv_stdout := srv_stdout (server_abs s) @ stdout_of (display_output (srv_ctx (server_abs s)) msg)\<rparr>)"
    using conc_display.hyps by (intro srv_display [of "server_abs s" c rid]) simp
  moreover have "phase_abs \<circ> (cc_phase s)(c := RunEval rid source isolated texts outcome ienv' env' ctx') =
      phase_abs \<circ> cc_phase s"
    using conc_display.hyps by (simp add: fun_upd_comp fun_eq_iff)
  ultimately show ?case using lock conc_display.hyps sink by (simp add: server_abs_def)
next
  case (conc_finish s c rid source isolated outcome ienv' env' ctx')
  have lock: "cc_lock s = Some c"
    using conc_finish running_free(2) [of s c] by (simp add: run_inv_def)
  have "server_step (server_abs s) ((server_abs s)\<lparr>srv_conns := (srv_conns (server_abs s))(c := ConnReading),
      srv_lock := None, srv_ctx := set_display_sink None ctx',
      srv_out := (srv_out (server_abs s))(c := srv_out (server_abs s) c @ [EvalResult rid outcome])\<rparr>)"
    using conc_finish.hyps by (intro srv_finish) simp
  then show ?case using lock conc_finish.hyps by (simp add: server_abs_def fun_upd_comp)
qed

text \<open>The daemon starts with its output on stdout: no sink.\<close>

definition conc_start ::
  "('e, 'cfg, 'ib, 'l) daemon \<Rightarrow> (nat \<Rightarrow> request list) \<Rightarrow> ('e, 'cfg, 'ib, 'l) conc \<Rightarrow> bool" where
  "conc_start d0 inputs s \<longleftrightarrow> conc_init d0 inputs s \<and> display_sink (d_ctx d0) = None"

interpretation conc_server: simulation "conc_start d0 inputs" "conc_step eng" "run_inv eng d0"
  server_init server_step server_abs
  for eng :: "('e, 'cfg, 'ib, 'l) engine" and d0 inputs
proof
  fix s t :: "('e, 'cfg, 'ib, 'l) conc"
  show "run_inv eng d0 s" if "conc_start d0 inputs s"
    using that serial.inv_init [of d0 inputs s] serial.rel_init [of d0 inputs s eng]
    by (simp add: conc_start_def run_inv_def conc_inv_def)
  show "run_inv eng d0 t" if "conc_step eng s t" and "run_inv eng d0 s"
    using that by (simp add: run_inv_def holder_inv_step [OF that(1)] serial_inv_step [OF that(1)])
  show "server_init (server_abs s)" if "conc_start d0 inputs s"
    using that by (simp add: conc_start_def conc_init_def server_init_def server_abs_def fun_eq_iff)
  show "server_step (server_abs s) (server_abs t) \<or> server_abs t = server_abs s"
    if "conc_step eng s t" and "run_inv eng d0 s"
    using conc_simulates [OF that] ..
qed


section \<open>Every evaluation is answered, as in the sequential run\<close>

text \<open>
  Runs of the daemon over its evaluator: the steps of its connections, also those of a daemon to
  which nothing more is sent.
\<close>

definition conc_run ::
  "('e, 'cfg, 'ib, 'l) engine \<Rightarrow> ('e, 'cfg, 'ib, 'l) daemon \<Rightarrow> (nat \<Rightarrow> request list) \<Rightarrow>
     (nat \<Rightarrow> ('e, 'cfg, 'ib, 'l) conc) \<Rightarrow> bool" where
  "conc_run eng d0 inputs \<sigma> \<longleftrightarrow>
     conc_start d0 inputs (\<sigma> 0) \<and> run_of (\<lambda>s t. conc_step eng s t \<or> t = s) \<sigma>"

lemma conc_run_reachable:
  assumes "conc_run eng d0 inputs \<sigma>"
  shows "reachable (conc_start d0 inputs) (conc_step eng) (\<sigma> i)"
proof (induction i)
  case 0
  with assms show ?case by (simp add: conc_run_def reach_init)
next
  case (Suc i)
  from assms have "conc_step eng (\<sigma> i) (\<sigma> (Suc i)) \<or> \<sigma> (Suc i) = \<sigma> i"
    by (simp add: conc_run_def run_of_def)
  with Suc show ?case by (auto intro: reach_step)
qed

lemma conc_run_abs:
  assumes "conc_run eng d0 inputs \<sigma>"
  shows "server_run (server_abs \<circ> \<sigma>)"
proof -
  have "server_step (server_abs (\<sigma> i)) (server_abs (\<sigma> (Suc i)))" for i
  proof -
    have "conc_step eng (\<sigma> i) (\<sigma> (Suc i)) \<or> \<sigma> (Suc i) = \<sigma> i"
      using assms by (simp add: conc_run_def run_of_def)
    then show ?thesis
    proof
      assume "\<sigma> (Suc i) = \<sigma> i"
      then show ?thesis by (simp add: server_stutters)
    qed (rule conc_simulates [OF _ conc_server.always [OF conc_run_reachable [OF assms]]])
  qed
  then show ?thesis
    using conc_server.refines [OF conc_run_reachable [OF assms, of 0]] by (simp add: server_run_def run_of_def)
qed

text \<open>
  While an evaluation of a connection is under way, only other connections' requests are logged;
  it ends in its own entry.
\<close>

lemma current_step:
  assumes "conc_step eng s t" and "holder_inv s" and "current (cc_phase s c) = [req]"
  shows "current (cc_phase t c) = [req] \<and> (\<exists>jobs. cc_log t = cc_log s @ jobs \<and> (\<forall>job \<in> set jobs. fst job \<noteq> c)) \<or>
    current (cc_phase t c) = [] \<and> cc_log t = cc_log s @ [(c, req)] \<and> cc_lock t = None"
  using assms
proof (induction rule: conc_step.induct)
  case (conc_display s d rid source isolated msg texts outcome ienv' env' ctx')
  then show ?case by (cases "c = d") auto
qed auto

definition out_of ::
  "('e, 'cfg, 'ib, 'l) daemon \<times> (nat \<Rightarrow> 'e option) \<times> (nat \<Rightarrow> response list) \<Rightarrow> nat \<Rightarrow> response list" where
  "out_of st = snd (snd st)"

lemma serve_one_other: "fst job \<noteq> c \<Longrightarrow> out_of (serve_one eng job st) c = out_of st c"
  by (auto simp: serve_one_def out_of_def split: prod.split)

lemma serve_log_others:
  assumes "\<forall>job \<in> set jobs. fst job \<noteq> c"
  shows "out_of (serve_log eng d0 (log @ jobs)) c = out_of (serve_log eng d0 log) c"
  using assms
proof (induction jobs rule: rev_induct)
  case (snoc job jobs)
  then show ?case
    using serve_log_snoc [of eng d0 "log @ jobs" job] by (simp add: serve_one_other)
qed simp

lemma while_current:
  assumes "conc_run eng d0 inputs \<sigma>" and "i \<le> j"
    and "\<forall>m. i \<le> m \<and> m \<le> j \<longrightarrow> current (cc_phase (\<sigma> m) c) = [req]"
  shows "out_of (serve_log eng d0 (cc_log (\<sigma> j))) c = out_of (serve_log eng d0 (cc_log (\<sigma> i))) c"
  using assms(2,3)
proof (induction j rule: dec_induct)
  case (step n)
  have "conc_step eng (\<sigma> n) (\<sigma> (Suc n)) \<or> \<sigma> (Suc n) = \<sigma> n"
    using assms(1) by (simp add: conc_run_def run_of_def)
  moreover have "holder_inv (\<sigma> n)"
    using conc_server.always [OF conc_run_reachable [OF assms(1)]] by (simp add: run_inv_def)
  ultimately have "out_of (serve_log eng d0 (cc_log (\<sigma> (Suc n)))) c = out_of (serve_log eng d0 (cc_log (\<sigma> n))) c"
    using current_step [of eng "\<sigma> n" "\<sigma> (Suc n)" c req] step by (auto simp: serve_log_others)
  with step show ?case by simp
qed simp

lemma queued_out:
  assumes "serial_inv eng d0 s" and "cc_phase s c = RunQueued rid source isolated"
  shows "cc_out s c = out_of (serve_log eng d0 (cc_log s)) c"
  using assms by (auto simp: serial_inv_def mid_evaluation_def out_of_def split: option.splits)


text \<open>The sample run: connection 4 evaluates while connection 2 pings; then nothing more.\<close>

lemma conc_0_start: "conc_start sample_daemon sample_inputs conc_0"
  using conc_0_init by (simp add: conc_start_def) (simp add: sample_daemon_def cli_ctx_new_def)


definition sample_conc_run :: "nat \<Rightarrow> (rstr list, unit, unit, unit) conc" where
  "sample_conc_run i = (if i = 0 then conc_0 else if i = 1 then conc_1 else if i = 2 then conc_2
     else if i = 3 then conc_3 else if i = 4 then conc_4 else conc_5)"

lemma sample_conc_run_steps: "conc_run sample_engine sample_daemon sample_inputs sample_conc_run"
proof -
  have "conc_step sample_engine (sample_conc_run i) (sample_conc_run (Suc i)) \<or> sample_conc_run (Suc i) = sample_conc_run i" for i
    using conc_states_step by (auto simp: sample_conc_run_def eval_nat_numeral)
  then show ?thesis by (simp add: conc_run_def run_of_def sample_conc_run_def [of 0] conc_0_start)
qed

lemma conc_5_idle: "phase_abs (cc_phase conc_5 c) = ConnReading" "cc_lock conc_5 = None" "cc_queue conc_5 = []"
  by (simp_all add: conc_states)

lemma sample_conc_run_fair: "evaluations_end (server_abs \<circ> sample_conc_run)" "lock_handed_over (server_abs \<circ> sample_conc_run)"
proof -
  have "\<exists>j \<ge> i. srv_conns ((server_abs \<circ> sample_conc_run) j) c \<noteq> ConnEvaluating rid" for i c rid
    by (intro exI [of _ "i + 5"]) (simp add: sample_conc_run_def conc_5_idle)
  then show "evaluations_end (server_abs \<circ> sample_conc_run)" unfolding evaluations_end_def by blast
  have "i \<le> 2" if "cc_queue (sample_conc_run i) \<noteq> []" for i
    using that by (auto simp: sample_conc_run_def conc_states split: if_splits)
  moreover have "cc_lock (sample_conc_run 2) \<noteq> None" by (simp add: sample_conc_run_def conc_2_def Let_def)
  ultimately show "lock_handed_over (server_abs \<circ> sample_conc_run)" unfolding lock_handed_over_def by auto
qed


end
