(* ===== verification/Zs_Wired.thy ===== *)
theory Zs_Wired
  imports Zs_Layers
begin

text \<open>
  The concurrent daemon over bytes (\<open>handle_conn\<close> of \<open>src/src/daemon.rs\<close> with the framing of
  \<open>src/src/ipc.rs\<close>): every connection has a reader, which takes requests off its stream as their
  bytes arrive, in whatever pieces, an unbounded channel, and a writer task, which puts the
  responses on the stream until a write fails.  Between them is the machine of \<open>Zs_Serial\<close>.
\<close>

section \<open>States and steps\<close>

text \<open>
  \<open>wi_ended\<close> is how a connection's request loop ended on its stream: at the end of the stream, or with an
  error, which \<open>handle_conn\<close> returns while the writer task goes on.  The requests of a connection
  come off its stream, so the inputs of \<open>wi_conc\<close> stay empty.  \<open>wi_arrived\<close> and \<open>wi_requests\<close> are
  histories: the bytes that have arrived, the requests read.
\<close>

record ('e, 'cfg, 'ib, 'l) wired =
  wi_conc :: "('e, 'cfg, 'ib, 'l) conc"
  wi_stream :: "nat \<Rightarrow> ipc_stream"
  wi_ended :: "nat \<Rightarrow> (ipc_error, unit) result option"
  wi_writing :: "nat \<Rightarrow> bool"
  wi_written :: "nat \<Rightarrow> nat"
  wi_arrived :: "nat \<Rightarrow> bytes"
  wi_requests :: "nat \<Rightarrow> request list"

text \<open>What the peers do: send some bytes, close their end or break the stream.\<close>

inductive peer_step ::
  "('e, 'cfg, 'ib, 'l) wired \<Rightarrow> ('e, 'cfg, 'ib, 'l) wired \<Rightarrow> bool" where
  peer_sends: "ending (wi_stream w c) = StillOpen \<Longrightarrow>
    peer_step w (w\<lparr>wi_stream := (wi_stream w)(c := (wi_stream w c)\<lparr>incoming := incoming (wi_stream w c) @ bs\<rparr>),
      wi_arrived := (wi_arrived w)(c := wi_arrived w c @ bs)\<rparr>)"
| peer_ends: "ending (wi_stream w c) = StillOpen \<Longrightarrow>
    peer_step w (w\<lparr>wi_stream := (wi_stream w)(c := (wi_stream w c)\<lparr>ending := how\<rparr>)\<rparr>)"

text \<open>What the daemon does.\<close>

inductive serve_step ::
  "('e, 'cfg, 'ib, 'l) engine \<Rightarrow> (response \<Rightarrow> (rstr, bytes) result) \<Rightarrow> (bytes \<Rightarrow> (rstr, request) result) \<Rightarrow>
     ('e, 'cfg, 'ib, 'l) wired \<Rightarrow> ('e, 'cfg, 'ib, 'l) wired \<Rightarrow> bool"
  for eng enc dec where
  serve_read: "cc_phase (wi_conc w) c = RunIdle \<Longrightarrow> wi_ended w c = None \<Longrightarrow>
    read_frame dec (wi_stream w c) = FrameGot req s' \<Longrightarrow>
    conc_step eng ((wi_conc w)\<lparr>cc_input := (\<lambda>_. [])(c := [req])\<rparr>) t \<Longrightarrow> cc_input t = (\<lambda>_. []) \<Longrightarrow>
    serve_step eng enc dec w (w\<lparr>wi_conc := t, wi_stream := (wi_stream w)(c := s'),
      wi_requests := (wi_requests w)(c := wi_requests w c @ [req])\<rparr>)"
| serve_run: "conc_step eng (wi_conc w) t \<Longrightarrow> serve_step eng enc dec w (w\<lparr>wi_conc := t\<rparr>)"
| serve_close: "cc_phase (wi_conc w) c = RunIdle \<Longrightarrow> wi_ended w c = None \<Longrightarrow>
    read_frame dec (wi_stream w c) = FrameNone \<Longrightarrow>
    serve_step eng enc dec w (w\<lparr>wi_ended := (wi_ended w)(c := Some (Ok ()))\<rparr>)"
| serve_fail: "cc_phase (wi_conc w) c = RunIdle \<Longrightarrow> wi_ended w c = None \<Longrightarrow>
    read_frame dec (wi_stream w c) = FrameErr e \<Longrightarrow>
    serve_step eng enc dec w (w\<lparr>wi_ended := (wi_ended w)(c := Some (Err e))\<rparr>)"
| serve_write: "wi_writing w c \<Longrightarrow> wi_written w c < length (cc_out (wi_conc w) c) \<Longrightarrow>
    write_frame enc (cc_out (wi_conc w) c ! wi_written w c) (wi_stream w c) = (s', r) \<Longrightarrow>
    serve_step eng enc dec w (w\<lparr>wi_stream := (wi_stream w)(c := s'), wi_writing := (wi_writing w)(c := is_ok r),
      wi_written := (wi_written w)(c := Suc (wi_written w c))\<rparr>)"

definition wired_step ::
  "('e, 'cfg, 'ib, 'l) engine \<Rightarrow> (response \<Rightarrow> (rstr, bytes) result) \<Rightarrow> (bytes \<Rightarrow> (rstr, request) result) \<Rightarrow>
     ('e, 'cfg, 'ib, 'l) wired \<Rightarrow> ('e, 'cfg, 'ib, 'l) wired \<Rightarrow> bool" where
  "wired_step eng enc dec w w' \<longleftrightarrow> peer_step w w' \<or> serve_step eng enc dec w w'"

text \<open>\<open>room\<close> may differ from connection to connection.\<close>

definition wired_init :: "('e, 'cfg, 'ib, 'l) daemon \<Rightarrow> ('e, 'cfg, 'ib, 'l) wired \<Rightarrow> bool" where
  "wired_init d0 w \<longleftrightarrow>
     conc_init d0 (\<lambda>_. []) (wi_conc w) \<and>
     (\<forall>c. incoming (wi_stream w c) = [] \<and> ending (wi_stream w c) = StillOpen \<and> outgoing (wi_stream w c) = []) \<and>
     wi_ended w = (\<lambda>_. None) \<and> wi_writing w = (\<lambda>_. True) \<and> wi_written w = (\<lambda>_. 0) \<and>
     wi_arrived w = (\<lambda>_. []) \<and> wi_requests w = (\<lambda>_. [])"

section \<open>The requests are inputs\<close>

text \<open>More input at the end changes nothing that has happened.\<close>

definition more_input ::
  "(nat \<Rightarrow> request list) \<Rightarrow> ('e, 'cfg, 'ib, 'l) conc \<Rightarrow> ('e, 'cfg, 'ib, 'l) conc" where
  "more_input ins s = s\<lparr>cc_input := (\<lambda>c. cc_input s c @ ins c)\<rparr>"

lemma more_input_simps [simp]:
  "cc_daemon (more_input ins s) = cc_daemon s" "cc_ienv (more_input ins s) = cc_ienv s"
  "cc_phase (more_input ins s) = cc_phase s" "cc_out (more_input ins s) = cc_out s"
  "cc_lock (more_input ins s) = cc_lock s" "cc_queue (more_input ins s) = cc_queue s"
  "cc_log (more_input ins s) = cc_log s" "cc_submitted (more_input ins s) = cc_submitted s"
  "cc_input (more_input ins s) c = cc_input s c @ ins c"
  by (simp_all add: more_input_def)

lemma upd_append: "(\<lambda>k. (if k = c then xs else f k) @ g k) = (\<lambda>k. f k @ g k)(c := xs @ g c)"
  by (simp add: fun_eq_iff)

lemma conc_step_more_input: "conc_step eng s t \<Longrightarrow> conc_step eng (more_input ins s) (more_input ins t)"
proof (induction rule: conc_step.induct)
  case (conc_simple s c req reqs rs ienv' d' go)
  then show ?case
    using conc_step.conc_simple [of "more_input ins s" c req "reqs @ ins c" eng rs ienv' d' go]
    by (cases s) (simp add: more_input_def upd_append split del: if_split)
next
  case (conc_submit s c rid source isolated reqs)
  then show ?case
    using conc_step.conc_submit [of "more_input ins s" c rid source isolated "reqs @ ins c" eng]
    by (cases s) (simp add: more_input_def upd_append)
next
  case (conc_acquire s c q rid source isolated ctx texts r ienv' env' ctx')
  then show ?case
    using conc_step.conc_acquire [of "more_input ins s" c q rid source isolated ctx eng texts r ienv' env' ctx']
    by (cases s) (simp add: more_input_def)
next
  case (conc_display s c rid source isolated msg texts outcome ienv' env' ctx')
  then show ?case
    using conc_step.conc_display [of "more_input ins s" c rid source isolated msg texts outcome ienv' env' ctx' eng]
    by (cases s) (simp add: more_input_def)
next
  case (conc_finish s c rid source isolated outcome ienv' env' ctx')
  then show ?case
    using conc_step.conc_finish [of "more_input ins s" c rid source isolated outcome ienv' env' ctx' eng]
    by (cases s) (simp add: more_input_def)
qed

lemma reachable_more_input:
  assumes "reachable (conc_init d0 ins) (conc_step eng) s"
  shows "reachable (conc_init d0 (\<lambda>c. ins c @ new c)) (conc_step eng) (more_input new s)"
  using assms
proof (induction rule: reachable.induct)
  case (reach_init s)
  then show ?case by (intro reachable.reach_init) (simp add: conc_init_def more_input_def)
next
  case (reach_step s t)
  from reach_step.IH conc_step_more_input [OF reach_step.hyps(2)] show ?case by (rule reachable.reach_step)
qed

lemma input_consumed: "conc_step eng s t \<Longrightarrow> cc_input s = (\<lambda>_. []) \<Longrightarrow> cc_input t = (\<lambda>_. [])"
  by (induction rule: conc_step.induct) auto

definition requests_inv ::
  "('e, 'cfg, 'ib, 'l) engine \<Rightarrow> ('e, 'cfg, 'ib, 'l) daemon \<Rightarrow> ('e, 'cfg, 'ib, 'l) wired \<Rightarrow> bool" where
  "requests_inv eng d0 w \<longleftrightarrow>
     reachable (conc_init d0 (wi_requests w)) (conc_step eng) (wi_conc w) \<and> cc_input (wi_conc w) = (\<lambda>_. [])"

lemma requests_inv_serve: "serve_step eng enc dec w w' \<Longrightarrow> requests_inv eng d0 w \<Longrightarrow> requests_inv eng d0 w'"
proof (induction rule: serve_step.induct)
  case (serve_read w c req s' t)
  let ?more = "(\<lambda>_. [])(c := [req])"
  have "(\<lambda>k. wi_requests w k @ ?more k) = (wi_requests w)(c := wi_requests w c @ [req])"
    by (simp add: fun_eq_iff)
  moreover have "more_input ?more (wi_conc w) = (wi_conc w)\<lparr>cc_input := ?more\<rparr>"
    using serve_read.prems by (simp add: requests_inv_def more_input_def fun_upd_def)
  ultimately have "reachable (conc_init d0 ((wi_requests w)(c := wi_requests w c @ [req]))) (conc_step eng)
      ((wi_conc w)\<lparr>cc_input := ?more\<rparr>)"
    using reachable_more_input [of d0 "wi_requests w" eng "wi_conc w" ?more] serve_read.prems
    by (simp add: requests_inv_def)
  from reach_step [OF this serve_read.hyps(4)] serve_read.hyps(5) show ?case
    by (simp add: requests_inv_def)
qed (auto simp: requests_inv_def intro: reach_step input_consumed)

lemma requests_inv_step: "wired_step eng enc dec w w' \<Longrightarrow> requests_inv eng d0 w \<Longrightarrow> requests_inv eng d0 w'"
  by (auto simp: wired_step_def intro: requests_inv_serve) (auto simp: requests_inv_def elim!: peer_step.cases)

section \<open>The bytes read\<close>

text \<open>
  Once a connection's loop has ended, nothing more can be read; and if what has arrived is a prefix
  of the frames of \<open>reqs\<close>, the requests read are the first of \<open>reqs\<close>, with the rest unread.
\<close>

definition ended_ok ::
  "(bytes \<Rightarrow> (rstr, request) result) \<Rightarrow> ('e, 'cfg, 'ib, 'l) wired \<Rightarrow> nat \<Rightarrow> bool" where
  "ended_ok dec w c \<longleftrightarrow>
     (wi_ended w c \<noteq> None \<longrightarrow>
        read_frame dec (wi_stream w c) = FrameNone \<or> (\<exists>e. read_frame dec (wi_stream w c) = FrameErr e))"

definition read_ok ::
  "(request \<Rightarrow> (rstr, bytes) result) \<Rightarrow> ('e, 'cfg, 'ib, 'l) wired \<Rightarrow> nat \<Rightarrow> request list \<Rightarrow> bool" where
  "read_ok renc w c reqs \<longleftrightarrow>
     (\<exists>rest. reqs = wi_requests w c @ rest \<and>
        wi_arrived w c = concat (map (frame_bytes renc) (wi_requests w c)) @ incoming (wi_stream w c))"

definition reading_inv ::
  "(request \<Rightarrow> (rstr, bytes) result) \<Rightarrow> (bytes \<Rightarrow> (rstr, request) result) \<Rightarrow> ('e, 'cfg, 'ib, 'l) wired \<Rightarrow> bool" where
  "reading_inv renc dec w \<longleftrightarrow>
     (\<forall>c. ended_ok dec w c) \<and>
     (\<forall>c reqs. list_all (frame_ok renc dec) reqs \<longrightarrow>
        prefix (wi_arrived w c) (concat (map (frame_bytes renc) reqs)) \<longrightarrow> read_ok renc w c reqs)"

lemma read_frame_outgoing: "read_frame dec (s\<lparr>outgoing := out, room := n\<rparr>) =
  (case read_frame dec s of
     FramePending \<Rightarrow> FramePending
   | FrameGot m s' \<Rightarrow> FrameGot m (s'\<lparr>outgoing := out, room := n\<rparr>)
   | FrameNone \<Rightarrow> FrameNone
   | FrameErr e \<Rightarrow> FrameErr e)"
  by (auto simp: read_frame_def read_exact_def Let_def split: stream_end.splits sum.splits)

lemma write_frame_touches:
  assumes "write_frame enc m s = (s', r)"
  shows "\<exists>out n. s' = s\<lparr>outgoing := out, room := n\<rparr>"
proof -
  have all: "\<exists>out n. t' = t\<lparr>outgoing := out, room := n\<rparr>" if "write_all bs t = (t', r')" for bs t t' r'
    using that by (cases t) (auto simp: write_all_def split: option.splits if_splits)
  show ?thesis
    using assms by (cases s) (auto simp: write_frame_def split: sum.splits if_splits prod.splits dest!: all)
qed

lemma ended_ok_open:
  assumes "ended_ok dec w c" and "ending (wi_stream w c) = StillOpen" and "wi_ended w c \<noteq> None"
  shows "\<exists>e. read_frame dec (wi_stream w c) = FrameErr e"
  using assms by (auto simp: ended_ok_def read_frame_none_iff)

lemma read_frame_peer:
  assumes "ending s = StillOpen" and "read_frame dec s = FrameErr e"
  shows "read_frame dec (s\<lparr>incoming := incoming s @ bs\<rparr>) = FrameErr e"
    and "read_frame dec (s\<lparr>ending := x\<rparr>) = FrameErr e"
  using assms by (auto simp: read_frame_def read_exact_def Let_def split: if_splits sum.splits)

lemma reading_inv_peer: "peer_step w w' \<Longrightarrow> reading_inv renc dec w \<Longrightarrow> reading_inv renc dec w'"
proof (induction rule: peer_step.induct)
  case (peer_sends w c bs)
  let ?w = "w\<lparr>wi_stream := (wi_stream w)(c := (wi_stream w c)\<lparr>incoming := incoming (wi_stream w c) @ bs\<rparr>),
      wi_arrived := (wi_arrived w)(c := wi_arrived w c @ bs)\<rparr>"
  have "ended_ok dec w k" for k using peer_sends.prems by (simp add: reading_inv_def)
  then have "ended_ok dec ?w k" for k
    using ended_ok_open [of dec w c] peer_sends.hyps read_frame_peer(1)
    by (cases "k = c") (fastforce simp: ended_ok_def)+
  moreover have "read_ok renc ?w k reqs"
    if "list_all (frame_ok renc dec) reqs" "prefix (wi_arrived ?w k) (concat (map (frame_bytes renc) reqs))" for k reqs
  proof -
    have "prefix (wi_arrived w k) (concat (map (frame_bytes renc) reqs))"
      using that(2) by (cases "k = c") (auto dest: append_prefixD)
    with that(1) peer_sends.prems have "read_ok renc w k reqs" by (simp add: reading_inv_def)
    then show ?thesis by (cases "k = c") (auto simp: read_ok_def)
  qed
  ultimately show ?case unfolding reading_inv_def by blast
next
  case (peer_ends w c how)
  let ?w = "w\<lparr>wi_stream := (wi_stream w)(c := (wi_stream w c)\<lparr>ending := how\<rparr>)\<rparr>"
  have "ended_ok dec w k" for k using peer_ends.prems by (simp add: reading_inv_def)
  then have "ended_ok dec ?w k" for k
    using ended_ok_open [of dec w c] peer_ends.hyps read_frame_peer(2)
    by (cases "k = c") (fastforce simp: ended_ok_def)+
  with peer_ends.prems show ?case by (auto simp: reading_inv_def read_ok_def)
qed

lemma reading_inv_serve: "serve_step eng enc dec w w' \<Longrightarrow> reading_inv renc dec w \<Longrightarrow> reading_inv renc dec w'"
proof (induction rule: serve_step.induct)
  case (serve_read w c req s' t)
  let ?w = "w\<lparr>wi_conc := t, wi_stream := (wi_stream w)(c := s'),
      wi_requests := (wi_requests w)(c := wi_requests w c @ [req])\<rparr>"
  have "read_ok renc ?w c reqs"
    if reqs: "list_all (frame_ok renc dec) reqs" "prefix (wi_arrived w c) (concat (map (frame_bytes renc) reqs))" for reqs
  proof -
    from serve_read.prems reqs obtain rest where rest: "reqs = wi_requests w c @ rest"
      and arrived: "wi_arrived w c = concat (map (frame_bytes renc) (wi_requests w c)) @ incoming (wi_stream w c)"
      unfolding reading_inv_def read_ok_def by blast
    have "prefix (incoming (wi_stream w c)) (concat (map (frame_bytes renc) rest))"
      using reqs(2) by (simp add: rest arrived)
    with reqs(1) serve_read.hyps(3) obtain rest' where "rest = req # rest'"
      "incoming (wi_stream w c) = frame_bytes renc req @ incoming s'"
      using read_frame_of_prefix [of renc dec rest "wi_stream w c" req s'] by (auto simp: rest)
    with rest arrived show ?thesis by (simp add: read_ok_def)
  qed
  moreover have "ended_ok dec ?w k" for k
    using serve_read by (auto simp: reading_inv_def ended_ok_def)
  ultimately show ?case
    using serve_read.prems by (auto simp: reading_inv_def read_ok_def)
next
  case (serve_write w c s' r)
  from write_frame_touches [OF serve_write.hyps(3)] obtain out n
    where s': "s' = (wi_stream w c)\<lparr>outgoing := out, room := n\<rparr>" by blast
  show ?case
    using serve_write.prems by (auto simp: reading_inv_def ended_ok_def read_ok_def s' read_frame_outgoing)
qed (auto simp: reading_inv_def ended_ok_def read_ok_def)

section \<open>The bytes written\<close>

definition frames_of :: "('m \<Rightarrow> (rstr, bytes) result) \<Rightarrow> 'm list \<Rightarrow> bytes" where
  "frames_of enc ms = concat (map (frame_bytes enc) ms)"

lemma frames_of_append [simp]: "frames_of enc (ms @ ns) = frames_of enc ms @ frames_of enc ns"
  by (simp add: frames_of_def)

lemma frames_of_Cons [simp]: "frames_of enc (m # ms) = frame_bytes enc m @ frames_of enc ms"
  by (simp add: frames_of_def)

lemma frames_of_prefix: "prefix ms ns \<Longrightarrow> prefix (frames_of enc ms) (frames_of enc ns)"
  by (auto elim!: prefixE)

text \<open>
  The writer has taken the first \<open>wi_written\<close> responses; what is on the stream is their frames, cut
  short when a write failed, which cannot happen while the peer takes everything and the
  responses can be encoded.
\<close>

definition written_ok ::
  "(response \<Rightarrow> (rstr, bytes) result) \<Rightarrow> ('e, 'cfg, 'ib, 'l) wired \<Rightarrow> nat \<Rightarrow> bool" where
  "written_ok enc w c \<longleftrightarrow>
     (let taken = take (wi_written w c) (cc_out (wi_conc w) c) in
      wi_written w c \<le> length (cc_out (wi_conc w) c) \<and>
      prefix (outgoing (wi_stream w c)) (frames_of enc taken) \<and>
      (wi_writing w c \<longrightarrow> outgoing (wi_stream w c) = frames_of enc taken) \<and>
      (\<forall>rdec. room (wi_stream w c) = None \<and> list_all (frame_ok enc rdec) taken \<longrightarrow> wi_writing w c))"

definition writing_inv ::
  "(response \<Rightarrow> (rstr, bytes) result) \<Rightarrow> ('e, 'cfg, 'ib, 'l) wired \<Rightarrow> bool" where
  "writing_inv enc w \<longleftrightarrow> (\<forall>c. written_ok enc w c)"

lemma conc_out_grows: "conc_step eng s t \<Longrightarrow> prefix (cc_out s c) (cc_out t c)"
  by (induction rule: conc_step.induct) auto

lemma written_ok_grows:
  assumes "written_ok enc w c" and "prefix (cc_out (wi_conc w) c) (cc_out t c)"
    and "wi_conc w' = t" and "wi_written w' c = wi_written w c" and "wi_writing w' c = wi_writing w c"
    and "outgoing (wi_stream w' c) = outgoing (wi_stream w c)" and "room (wi_stream w' c) = room (wi_stream w c)"
  shows "written_ok enc w' c"
proof -
  obtain more where "cc_out t c = cc_out (wi_conc w) c @ more" using assms(2) by (rule prefixE)
  with assms show ?thesis by (simp add: written_ok_def Let_def)
qed

lemma read_frame_same:
  "read_frame dec s = FrameGot m s' \<Longrightarrow> outgoing s' = outgoing s \<and> room s' = room s"
  by (auto simp: read_frame_Got_iff Let_def)

lemma written_ok_write:
  assumes "written_ok enc w c" and "wi_writing w c" and "wi_written w c < length (cc_out (wi_conc w) c)"
    and "write_frame enc (cc_out (wi_conc w) c ! wi_written w c) (wi_stream w c) = (s', r)"
  shows "written_ok enc (w\<lparr>wi_stream := (wi_stream w)(c := s'), wi_writing := (wi_writing w)(c := is_ok r),
      wi_written := (wi_written w)(c := Suc (wi_written w c))\<rparr>) c"
proof -
  let ?m = "cc_out (wi_conc w) c ! wi_written w c"
  have taken: "take (Suc (wi_written w c)) (cc_out (wi_conc w) c) = take (wi_written w c) (cc_out (wi_conc w) c) @ [?m]"
    using assms(3) by (rule take_Suc_conv_app_nth)
  obtain p where p: "outgoing s' = outgoing (wi_stream w c) @ p" "prefix p (frame_bytes enc ?m)"
      "r = Ok () \<Longrightarrow> p = frame_bytes enc ?m"
    using write_frame_prefix [OF assms(4)] by blast
  have before: "outgoing (wi_stream w c) = frames_of enc (take (wi_written w c) (cc_out (wi_conc w) c))"
    using assms(1,2) by (simp add: written_ok_def Let_def)
  have "is_ok r" if "room s' = None" "frame_ok enc rdec ?m" for rdec
  proof -
    have "room (wi_stream w c) = None"
      using assms(4) that(1) by (auto simp: write_frame_def write_all_def split: sum.splits if_splits option.splits prod.splits)
    with write_frame_ok [OF that(2)] assms(4) show ?thesis by auto
  qed
  moreover have "r = Ok ()" if "is_ok r" using that by (auto simp: is_ok_iff)
  moreover have "prefix (frames_of enc (take (wi_written w c) (cc_out (wi_conc w) c)) @ p)
      (frames_of enc (take (wi_written w c) (cc_out (wi_conc w) c)) @ frame_bytes enc ?m)"
    using p(2) by simp
  ultimately show ?thesis
    using assms(3) p by (auto simp: written_ok_def Let_def taken before frames_of_def)
qed

lemma writing_inv_peer: "peer_step w w' \<Longrightarrow> writing_inv enc w \<Longrightarrow> writing_inv enc w'"
  by (induction rule: peer_step.induct) (auto simp: writing_inv_def written_ok_def Let_def)

lemma writing_inv_serve: "serve_step eng enc dec w w' \<Longrightarrow> writing_inv enc w \<Longrightarrow> writing_inv enc w'"
proof (induction rule: serve_step.induct)
  case (serve_read w c req s' t)
  have "prefix (cc_out (wi_conc w) k) (cc_out t k)" for k
    using conc_out_grows [OF serve_read.hyps(4), of k] by simp
  then show ?case
    using serve_read.prems read_frame_same [OF serve_read.hyps(3)]
    unfolding writing_inv_def by (intro allI written_ok_grows [where t = t]) auto
next
  case (serve_run w t)
  then show ?case unfolding writing_inv_def by (auto intro: written_ok_grows conc_out_grows)
next
  case (serve_write w c s' r)
  show ?case unfolding writing_inv_def
  proof
    fix k
    show "written_ok enc (w\<lparr>wi_stream := (wi_stream w)(c := s'), wi_writing := (wi_writing w)(c := is_ok r),
        wi_written := (wi_written w)(c := Suc (wi_written w c))\<rparr>) k"
    proof (cases "k = c")
      case True
      with serve_write written_ok_write [of enc w c s' r] show ?thesis by (simp add: writing_inv_def)
    next
      case False
      with serve_write.prems show ?thesis by (simp add: writing_inv_def written_ok_def)
    qed
  qed
qed (auto simp: writing_inv_def written_ok_def Let_def)

section \<open>All together\<close>

definition wired_inv ::
  "('e, 'cfg, 'ib, 'l) engine \<Rightarrow> (response \<Rightarrow> (rstr, bytes) result) \<Rightarrow> (bytes \<Rightarrow> (rstr, request) result) \<Rightarrow>
     ('e, 'cfg, 'ib, 'l) daemon \<Rightarrow> ('e, 'cfg, 'ib, 'l) wired \<Rightarrow> bool" where
  "wired_inv eng enc dec d0 w \<longleftrightarrow>
     requests_inv eng d0 w \<and> (\<forall>renc. reading_inv renc dec w) \<and> writing_inv enc w"

interpretation wired: inductive_invariant "wired_init d0" "wired_step eng enc dec" "wired_inv eng enc dec d0"
  for eng :: "('e, 'cfg, 'ib, 'l) engine" and enc dec d0
proof
  fix w w' :: "('e, 'cfg, 'ib, 'l) wired"
  show "wired_inv eng enc dec d0 w" if "wired_init d0 w"
    using that
    by (auto simp: wired_init_def wired_inv_def requests_inv_def reading_inv_def writing_inv_def ended_ok_def
        read_ok_def written_ok_def frames_of_def conc_init_def intro: reach_init)
  show "wired_inv eng enc dec d0 w'" if "wired_step eng enc dec w w'" and "wired_inv eng enc dec d0 w"
    using that requests_inv_step [OF that(1)]
    by (auto simp: wired_inv_def wired_step_def intro: reading_inv_peer reading_inv_serve writing_inv_peer writing_inv_serve)
qed

lemma wired_conc:
  assumes "wired_inv eng enc dec d0 w"
  shows "holder_inv (wi_conc w)" and "order_inv (wi_requests w) (wi_conc w)" and "serial_inv eng d0 (wi_conc w)"
    and "of_conn c (cc_log (wi_conc w)) @ current (cc_phase (wi_conc w) c) = wi_requests w c"
proof -
  have r: "reachable (conc_init d0 (wi_requests w)) (conc_step eng) (wi_conc w)" and input: "cc_input (wi_conc w) = (\<lambda>_. [])"
    using assms by (simp_all add: wired_inv_def requests_inv_def)
  from serial.both.always [OF r] show "holder_inv (wi_conc w)" "order_inv (wi_requests w) (wi_conc w)"
    "serial_inv eng d0 (wi_conc w)"
    by (simp_all add: conc_inv_def)
  from order_invD(1) [OF this(2), of c] input
  show "of_conn c (cc_log (wi_conc w)) @ current (cc_phase (wi_conc w) c) = wi_requests w c" by simp
qed

text \<open>
  What has been sent on the channels is a beginning of what the sequential daemon sends: the log,
  and the evaluation under way, if any.
\<close>

lemma conc_out_sequential:
  assumes "holder_inv s" and "serial_inv eng d0 s"
  shows "\<exists>jobs. (\<forall>c. prefix (cc_out s c) (out_of (serve_log eng d0 (cc_log s @ jobs)) c)) \<and>
    (\<forall>c. prefix (of_conn c jobs) (current (cc_phase s c)))"
proof -
  obtain d out where log: "serve_log eng d0 (cc_log s) = (d, cc_ienv s, out)"
    and st: "case cc_lock s of None \<Rightarrow> cc_daemon s = d \<and> cc_out s = out | Some k \<Rightarrow> mid_evaluation eng d out s k"
    using assms(2) unfolding serial_inv_def by blast
  show ?thesis
  proof (cases "cc_lock s")
    case None
    with st log show ?thesis by (intro exI [of _ "[]"]) (simp add: out_of_def of_conn_def)
  next
    case (Some k)
    with st obtain rid source isolated texts r ienv' env' ctx' sent where
      phase: "cc_phase s k = RunEval rid source isolated texts (render_result (eng_display eng) r) ienv' env' ctx'"
      and run: "run_evaluation eng source isolated (cc_ienv s k) (d_env d)
          (set_display_sink (Some (Sink k rid)) (d_ctx d)) = (sent @ texts, r, ienv', env', ctx')"
      and out: "cc_out s = out(k := out k @ map (Display rid) sent)"
      by (auto simp: mid_evaluation_def)
    have "out_of (serve_log eng d0 (cc_log s @ [(k, Eval rid source isolated)])) =
        out(k := out k @ map (Display rid) (sent @ texts) @ [EvalResult rid (render_result (eng_display eng) r)])"
      using log by (simp add: serve_log_snoc serve_one_def out_of_def handle_request_def eval_request_unfold [OF run]
          display_responses_own del: map_append)
    then show ?thesis using phase
      by (intro exI [of _ "[(k, Eval rid source isolated)]"]) (auto simp: out of_conn_def)
  qed
qed

lemma wired_sequential:
  assumes inv: "wired_inv eng enc dec d0 w"
  shows "\<exists>jobs. \<forall>c.
    prefix (outgoing (wi_stream w c)) (frames_of enc (out_of (serve_log eng d0 (cc_log (wi_conc w) @ jobs)) c)) \<and>
    prefix (of_conn c (cc_log (wi_conc w) @ jobs)) (wi_requests w c) \<and>
    (\<forall>renc reqs. list_all (frame_ok renc dec) reqs \<and> prefix (wi_arrived w c) (frames_of renc reqs) \<longrightarrow>
       prefix (wi_requests w c) reqs)"
proof -
  from conc_out_sequential [OF wired_conc(1,3) [OF inv]] obtain jobs where
    out: "\<And>c. prefix (cc_out (wi_conc w) c) (out_of (serve_log eng d0 (cc_log (wi_conc w) @ jobs)) c)"
    and jobs: "\<And>c. prefix (of_conn c jobs) (current (cc_phase (wi_conc w) c))" by blast
  have "prefix (outgoing (wi_stream w c)) (frames_of enc (out_of (serve_log eng d0 (cc_log (wi_conc w) @ jobs)) c))" for c
  proof -
    have "prefix (outgoing (wi_stream w c)) (frames_of enc (take (wi_written w c) (cc_out (wi_conc w) c)))"
      using inv by (simp add: wired_inv_def writing_inv_def written_ok_def Let_def)
    also have "prefix \<dots> (frames_of enc (out_of (serve_log eng d0 (cc_log (wi_conc w) @ jobs)) c))"
      by (rule frames_of_prefix [OF prefix_order.trans [OF take_is_prefix out]])
    finally show ?thesis .
  qed
  moreover have "prefix (of_conn c (cc_log (wi_conc w) @ jobs)) (wi_requests w c)" for c
    using wired_conc(4) [OF inv, of c] jobs [of c] by (metis filter_append map_append of_conn_def same_prefix_prefix)
  moreover have "prefix (wi_requests w c) reqs"
    if "list_all (frame_ok renc dec) reqs" "prefix (wi_arrived w c) (frames_of renc reqs)" for c renc reqs
  proof -
    have "read_ok renc w c reqs"
      using inv that by (simp add: wired_inv_def reading_inv_def frames_of_def)
    then show ?thesis by (auto simp: read_ok_def)
  qed
  ultimately show ?thesis by blast
qed


text \<open>Connection 0 sends a ping and an evaluation in three pieces.\<close>

definition sample_wired :: "(rstr list, unit, unit, unit) wired" where
  "sample_wired = \<lparr>wi_conc = conc_0\<lparr>cc_input := \<lambda>_. []\<rparr>,
     wi_stream = \<lambda>_. \<lparr>incoming = [], ending = StillOpen, outgoing = [], room = None\<rparr>,
     wi_ended = \<lambda>_. None, wi_writing = \<lambda>_. True, wi_written = \<lambda>_. 0, wi_arrived = \<lambda>_. [], wi_requests = \<lambda>_. []\<rparr>"

definition sent :: "bytes \<Rightarrow> (rstr list, unit, unit, unit) wired \<Rightarrow> (rstr list, unit, unit, unit) wired" where
  "sent bs w = w\<lparr>wi_stream := (wi_stream w)(0 := (wi_stream w 0)\<lparr>incoming := incoming (wi_stream w 0) @ bs\<rparr>),
     wi_arrived := (wi_arrived w)(0 := wi_arrived w 0 @ bs)\<rparr>"

abbreviation sample_wired_step ::
  "(rstr list, unit, unit, unit) wired \<Rightarrow> (rstr list, unit, unit, unit) wired \<Rightarrow> bool" where
  "sample_wired_step \<equiv> wired_step sample_engine (table_enc sample_resps) (table_dec sample_reqs)"

abbreviation sample_wires :: "(rstr list, unit, unit, unit) wired \<Rightarrow> bool" where
  "sample_wires \<equiv> reachable (wired_init sample_daemon) sample_wired_step"

definition sample_sent :: "(rstr list, unit, unit, unit) wired" where
  "sample_sent = sent [0, 0, 1, 2] (sent [1, 1, 0] (sent [0, 0, 0] sample_wired))"

lemma sample_sent_reachable: "sample_wires sample_sent"
proof -
  have send: "sample_wires (sent bs w)" if "sample_wires w" "ending (wi_stream w 0) = StillOpen" for bs w
    unfolding sent_def by (rule reach_step [OF that(1)]) (simp add: wired_step_def peer_sends [OF that(2)])
  have "sample_wires sample_wired"
    by (rule reach_init) (simp add: wired_init_def sample_wired_def conc_init_def conc_0_def)
  moreover have "ending (wi_stream sample_wired 0) = StillOpen" by (simp add: sample_wired_def)
  moreover have "ending (wi_stream (sent bs w) 0) = ending (wi_stream w 0)" for bs w by (simp add: sent_def)
  ultimately show ?thesis unfolding sample_sent_def by (intro send) simp_all
qed


end
