(* ===== verification/Zs_Rest.thy ===== *)
theory Zs_Rest
  imports Zs_Wired
begin

text \<open>
  The daemon of \<open>Zs_Wired\<close> comes to rest when its peers pause, and at rest it has answered everything
  it was sent.
\<close>

section \<open>The daemon at rest\<close>

definition at_rest ::
  "('e, 'cfg, 'ib, 'l) engine \<Rightarrow> (response \<Rightarrow> (rstr, bytes) result) \<Rightarrow> (bytes \<Rightarrow> (rstr, request) result) \<Rightarrow>
     ('e, 'cfg, 'ib, 'l) wired \<Rightarrow> bool" where
  "at_rest eng enc dec w \<longleftrightarrow> (\<forall>w'. \<not> serve_step eng enc dec w w')"

lemma evaluating_can_step:
  assumes "evaluating (cc_phase s c)"
  shows "\<exists>t. conc_step eng s t"
  using assms
proof (cases "cc_phase s c")
  case (RunEval rid source isolated texts outcome ienv' env' ctx')
  then show ?thesis
  proof (cases texts)
    case Nil
    with RunEval have "cc_phase s c = RunEval rid source isolated [] outcome ienv' env' ctx'" by simp
    from conc_finish [OF this] show ?thesis ..
  next
    case (Cons msg ms)
    with RunEval have "cc_phase s c = RunEval rid source isolated (msg # ms) outcome ienv' env' ctx'" by simp
    from conc_display [OF this] show ?thesis ..
  qed
qed simp_all

lemma queued_can_step:
  assumes "cc_lock s = None" and "cc_queue s = c # q" and "cc_phase s c = RunQueued rid source isolated"
  shows "\<exists>t. conc_step eng s t"
proof -
  obtain texts r ienv' env' ctx' where "run_evaluation eng source isolated (cc_ienv s c) (d_env (cc_daemon s))
      (set_display_sink (Some (Sink c rid)) (d_ctx (cc_daemon s))) = (texts, r, ienv', env', ctx')"
    by (metis prod_cases5)
  from conc_acquire [OF assms refl this] show ?thesis ..
qed

lemma request_can_step:
  assumes "cc_lock s = None" and "cc_phase s c = RunIdle" and "cc_input s = (\<lambda>_. [])(c := [req])"
  shows "\<exists>t. conc_step eng s t \<and> cc_input t = (\<lambda>_. [])"
proof (cases "is_eval req")
  case True
  then obtain rid source isolated where "req = Eval rid source isolated" by (cases req) auto
  with assms conc_submit [of s c rid source isolated "[]" eng] show ?thesis by (fastforce simp: fun_eq_iff)
next
  case False
  obtain rs ienv' d' go where "handle_request eng c req (cc_ienv s c) (cc_daemon s) = (rs, ienv', d', go)"
    by (metis prod_cases4)
  with assms False conc_simple [of s c req "[]" eng rs ienv' d' go] show ?thesis by (fastforce simp: fun_eq_iff)
qed

lemma at_rest_idle:
  assumes "at_rest eng enc dec w" and "wired_inv eng enc dec d0 w"
  shows "cc_lock (wi_conc w) = None" and "cc_queue (wi_conc w) = []"
    and "cc_phase (wi_conc w) c = RunIdle \<or> cc_phase (wi_conc w) c = RunEnded"
    and "cc_phase (wi_conc w) c = RunIdle \<Longrightarrow> read_frame dec (wi_stream w c) \<noteq> FrameGot req s'"
    and "wi_writing w c \<Longrightarrow> wi_written w c = length (cc_out (wi_conc w) c)"
proof -
  have stuck: "\<not> conc_step eng (wi_conc w) t" for t
    using assms(1) serve_run [of eng w t enc dec] by (auto simp: at_rest_def)
  note holder = wired_conc(1) [OF assms(2)]
  show lock: "cc_lock (wi_conc w) = None"
    using holder evaluating_can_step [of "wi_conc w"] stuck unfolding holder_inv_def by (metis not_None_eq)
  show queue: "cc_queue (wi_conc w) = []"
  proof (cases "cc_queue (wi_conc w)")
    case (Cons k q)
    then obtain rid source isolated where "cc_phase (wi_conc w) k = RunQueued rid source isolated"
      using holder unfolding holder_inv_def by (metis list.set_intros(1))
    from queued_can_step [OF lock Cons this] stuck show ?thesis by blast
  qed
  show "cc_phase (wi_conc w) c = RunIdle \<or> cc_phase (wi_conc w) c = RunEnded"
    using holder lock queue unfolding holder_inv_def
    by (cases "cc_phase (wi_conc w) c") (auto dest: spec [of _ c])
  show "read_frame dec (wi_stream w c) \<noteq> FrameGot req s'" if idle: "cc_phase (wi_conc w) c = RunIdle"
  proof
    assume got: "read_frame dec (wi_stream w c) = FrameGot req s'"
    then have "wi_ended w c = None"
      using assms(2) by (auto simp: wired_inv_def reading_inv_def ended_ok_def)
    moreover obtain t where "conc_step eng ((wi_conc w)\<lparr>cc_input := (\<lambda>_. [])(c := [req])\<rparr>) t" "cc_input t = (\<lambda>_. [])"
      using request_can_step [of "(wi_conc w)\<lparr>cc_input := (\<lambda>_. [])(c := [req])\<rparr>" c req eng] lock idle by auto
    ultimately have "\<exists>w'. serve_step eng enc dec w w'" using serve_read [OF idle _ got] by blast
    with assms(1) show False by (simp add: at_rest_def)
  qed
  show "wi_written w c = length (cc_out (wi_conc w) c)" if "wi_writing w c"
  proof (rule ccontr)
    assume "wi_written w c \<noteq> length (cc_out (wi_conc w) c)"
    then have less: "wi_written w c < length (cc_out (wi_conc w) c)"
      using assms(2) by (auto simp: wired_inv_def writing_inv_def written_ok_def Let_def le_less)
    obtain s' r where "write_frame enc (cc_out (wi_conc w) c ! wi_written w c) (wi_stream w c) = (s', r)"
      by fastforce
    from serve_write [OF that less this] assms(1) show False by (auto simp: at_rest_def)
  qed
qed

text \<open>A connection ends in the daemon's loop only by a \<open>Stop\<close>.\<close>

lemma stopped_step:
  "conc_step eng s t \<Longrightarrow> cc_phase s c = RunEnded \<longrightarrow> Stop \<in> set (of_conn c (cc_log s)) \<Longrightarrow>
     cc_phase t c = RunEnded \<longrightarrow> Stop \<in> set (of_conn c (cc_log t))"
proof (induction rule: conc_step.induct)
  case (conc_simple s k req reqs rs ienv' d' go)
  then show ?case by (cases req) (auto simp: handle_request_def)
qed auto

interpretation stopped: inductive_invariant "conc_init d0 inputs" "conc_step eng"
  "\<lambda>s. \<forall>c. cc_phase s c = RunEnded \<longrightarrow> Stop \<in> set (of_conn c (cc_log s))"
  for eng :: "('e, 'cfg, 'ib, 'l) engine" and d0 inputs
  by unfold_locales (auto simp: conc_init_def dest: stopped_step)

lemma rest_complete:
  assumes "reachable (wired_init d0) (wired_step eng enc dec) w" and "at_rest eng enc dec w"
    and "list_all (frame_ok renc dec) reqs" and "wi_arrived w c = frames_of renc reqs" and "Stop \<notin> set reqs"
    and "room (wi_stream w c) = None"
    and "list_all (frame_ok enc rdec) (out_of (serve_log eng d0 (cc_log (wi_conc w))) c)"
  shows "outgoing (wi_stream w c) = frames_of enc (out_of (serve_log eng d0 (cc_log (wi_conc w))) c) \<and>
    of_conn c (cc_log (wi_conc w)) = reqs \<and> cc_lock (wi_conc w) = None \<and> cc_queue (wi_conc w) = []"
proof -
  have inv: "wired_inv eng enc dec d0 w" by (rule wired.always [OF assms(1)])
  note rest = at_rest_idle [OF assms(2) inv]
  have "read_ok renc w c reqs"
    using inv assms(3,4) by (simp add: wired_inv_def reading_inv_def frames_of_def)
  then obtain left where left: "reqs = wi_requests w c @ left" "incoming (wi_stream w c) = concat (map (frame_bytes renc) left)"
    using assms(4) by (auto simp: read_ok_def frames_of_def)
  have "reachable (conc_init d0 (wi_requests w)) (conc_step eng) (wi_conc w)"
    using inv by (simp add: wired_inv_def requests_inv_def)
  from stopped.always [OF this] have "cc_phase (wi_conc w) c \<noteq> RunEnded"
    using wired_conc(4) [OF inv, of c] left(1) assms(5) by (metis Un_iff set_append)
  with rest(3) [of c] have idle: "cc_phase (wi_conc w) c = RunIdle" by blast
  have "left = []"
  proof (rule ccontr)
    assume "left \<noteq> []"
    then obtain m ms where "left = m # ms" by (cases left) auto
    with assms(3) left rest(4) [OF idle] ipc_link.recv_frames [of renc dec m ms "wi_stream w c" "[]"]
    show False by auto
  qed
  with left(1) wired_conc(4) [OF inv, of c] idle have log: "of_conn c (cc_log (wi_conc w)) = reqs" by simp
  have out: "cc_out (wi_conc w) c = out_of (serve_log eng d0 (cc_log (wi_conc w))) c"
    using wired_conc(3) [OF inv] rest(1) by (auto simp: serial_inv_def out_of_def)
  have written: "written_ok enc w c" using inv by (simp add: wired_inv_def writing_inv_def)
  then have writing: "wi_writing w c"
    using assms(6,7) out by (auto simp: written_ok_def Let_def list_all_iff dest: in_set_takeD)
  with written rest(5) [OF writing] out have "outgoing (wi_stream w c) = frames_of enc (out_of (serve_log eng d0 (cc_log (wi_conc w))) c)"
    by (simp add: written_ok_def Let_def)
  with log rest(1,2) show ?thesis by blast
qed


section \<open>The daemon comes to rest\<close>

text \<open>The connections whose peer has done something; the others are as they were at the start.\<close>

definition touched :: "('e, 'cfg, 'ib, 'l) wired \<Rightarrow> nat set" where
  "touched w = {c. wi_arrived w c \<noteq> [] \<or> ending (wi_stream w c) \<noteq> StillOpen}"

definition touched_inv :: "('e, 'cfg, 'ib, 'l) wired \<Rightarrow> bool" where
  "touched_inv w \<longleftrightarrow> finite (touched w) \<and> cc_input (wi_conc w) = (\<lambda>_. []) \<and>
     (\<forall>c. c \<notin> touched w \<longrightarrow>
        incoming (wi_stream w c) = [] \<and> cc_phase (wi_conc w) c = RunIdle \<and> cc_out (wi_conc w) c = [])"

lemma touched_peer: "peer_step w w' \<Longrightarrow> touched_inv w \<Longrightarrow> touched_inv w'"
proof (induction rule: peer_step.induct)
  case (peer_sends w c bs)
  let ?w = "w\<lparr>wi_stream := (wi_stream w)(c := (wi_stream w c)\<lparr>incoming := incoming (wi_stream w c) @ bs\<rparr>),
      wi_arrived := (wi_arrived w)(c := wi_arrived w c @ bs)\<rparr>"
  have "touched ?w \<subseteq> insert c (touched w)" by (auto simp: touched_def)
  then have "finite (touched ?w)" using peer_sends.prems by (auto simp: touched_inv_def intro: finite_subset)
  moreover have "c \<notin> touched ?w \<Longrightarrow> bs = [] \<and> c \<notin> touched w" by (simp add: touched_def)
  moreover have "k \<noteq> c \<Longrightarrow> k \<in> touched ?w \<longleftrightarrow> k \<in> touched w" for k by (simp add: touched_def)
  ultimately show ?case using peer_sends.prems by (auto simp: touched_inv_def)
next
  case (peer_ends w c how)
  let ?w = "w\<lparr>wi_stream := (wi_stream w)(c := (wi_stream w c)\<lparr>ending := how\<rparr>)\<rparr>"
  have "touched ?w \<subseteq> insert c (touched w)" by (auto simp: touched_def)
  then have "finite (touched ?w)" using peer_ends.prems by (auto simp: touched_inv_def intro: finite_subset)
  moreover have "c \<notin> touched ?w \<Longrightarrow> c \<notin> touched w" using peer_ends.hyps by (simp add: touched_def)
  moreover have "k \<noteq> c \<Longrightarrow> k \<in> touched ?w \<longleftrightarrow> k \<in> touched w" for k by (simp add: touched_def)
  ultimately show ?case using peer_ends.prems by (auto simp: touched_inv_def)
qed

lemma conc_step_quiet:
  assumes "conc_step eng s t" and "run_inv eng d0 s" and "cc_phase s c = RunIdle" and "cc_input s c = []"
  shows "cc_phase t c = RunIdle \<and> cc_out t c = cc_out s c"
  using assms
proof (induction rule: conc_step.induct)
  case (conc_display s k rid source isolated msg texts outcome ienv' env' ctx')
  have "display_output (d_ctx (cc_daemon s)) msg = ToSink k rid msg"
    by (rule run_inv_sink [OF conc_display.prems(1) conc_display.hyps])
  moreover have "k \<noteq> c" using conc_display by auto
  ultimately show ?case using conc_display.prems by (simp add: display_responses_def)
qed auto

lemma run_inv_input: "run_inv eng d0 (s\<lparr>cc_input := x\<rparr>) = run_inv eng d0 s"
proof -
  have "mid_evaluation eng d out (s\<lparr>cc_input := x\<rparr>) c = mid_evaluation eng d out s c" for d out c
    by (simp add: mid_evaluation_def)
  then show ?thesis by (cases "cc_lock s") (simp_all add: run_inv_def holder_inv_def serial_inv_def)
qed

lemma serve_keeps:
  assumes "serve_step eng enc dec w w'"
  shows "wi_arrived w' = wi_arrived w" and "ending (wi_stream w' c) = ending (wi_stream w c)"
proof -
  show "wi_arrived w' = wi_arrived w" using assms by (cases rule: serve_step.cases) auto
  show "ending (wi_stream w' c) = ending (wi_stream w c)"
    using assms
  proof (cases rule: serve_step.cases)
    case (serve_read k req s' t)
    then show ?thesis by (auto simp: read_frame_Got_iff Let_def)
  next
    case (serve_write k s' r)
    then show ?thesis using write_frame_touches by fastforce
  qed auto
qed

lemma touched_serve:
  assumes "serve_step eng enc dec w w'" and "run_inv eng d0 (wi_conc w)" and "touched_inv w"
  shows "touched_inv w'"
proof -
  have same: "touched w' = touched w" using serve_keeps [OF assms(1)] by (simp add: touched_def)
  from assms have "cc_input (wi_conc w') = (\<lambda>_. []) \<and> (\<forall>c. c \<notin> touched w \<longrightarrow>
      incoming (wi_stream w' c) = [] \<and> cc_phase (wi_conc w') c = RunIdle \<and> cc_out (wi_conc w') c = [])"
  proof (induction rule: serve_step.induct)
    case (serve_read w c req s' t)
    have "c \<in> touched w"
      using serve_read.hyps(3) serve_read.prems(2) by (auto simp: touched_inv_def read_frame_Got_iff)
    then show ?case
      using serve_read.prems conc_step_quiet [OF serve_read.hyps(4), of d0] serve_read.hyps(5)
      by (auto simp: touched_inv_def run_inv_input)
  next
    case (serve_run w t)
    then show ?case
      using conc_step_quiet [OF serve_run.hyps serve_run.prems(1)] input_consumed [OF serve_run.hyps]
      by (simp add: touched_inv_def)
  next
    case (serve_write w c s' r)
    from write_frame_touches [OF serve_write.hyps(3)] serve_write.prems(2) show ?case
      by (auto simp: touched_inv_def)
  qed (auto simp: touched_inv_def)
  with assms(3) same show ?thesis by (simp add: touched_inv_def)
qed

text \<open>
  What is left to do: bytes to read and loops to end, evaluations to begin and end, texts to
  display, responses to write; a step may add to a later one of these, but not to an earlier one.
\<close>

fun stage :: "('e, 'cfg, 'ib, 'l) run_phase \<Rightarrow> nat" where
  "stage (RunQueued rid source isolated) = 2"
| "stage (RunEval rid source isolated texts outcome ienv' env' ctx') = 1"
| "stage p = 0"

fun to_display :: "('e, 'cfg, 'ib, 'l) run_phase \<Rightarrow> nat" where
  "to_display (RunEval rid source isolated texts outcome ienv' env' ctx') = length texts"
| "to_display p = 0"

definition to_read :: "('e, 'cfg, 'ib, 'l) wired \<Rightarrow> nat" where
  "to_read w = (\<Sum>c \<in> touched w. length (incoming (wi_stream w c)) + (if wi_ended w c = None then 1 else 0))"

definition to_evaluate :: "('e, 'cfg, 'ib, 'l) wired \<Rightarrow> nat" where
  "to_evaluate w = (\<Sum>c \<in> touched w. stage (cc_phase (wi_conc w) c))"

definition to_show :: "('e, 'cfg, 'ib, 'l) wired \<Rightarrow> nat" where
  "to_show w = (\<Sum>c \<in> touched w. to_display (cc_phase (wi_conc w) c))"

definition to_write :: "('e, 'cfg, 'ib, 'l) wired \<Rightarrow> nat" where
  "to_write w = (\<Sum>c \<in> touched w.
     if wi_writing w c then length (cc_out (wi_conc w) c) - wi_written w c else 0)"

lemma sum_one_less:
  fixes f g :: "nat \<Rightarrow> nat"
  assumes "finite A" and "c \<in> A" and "g c < f c" and "\<And>k. k \<noteq> c \<Longrightarrow> g k = f k"
  shows "sum g A < sum f A"
proof (rule sum_strict_mono_ex1)
  show "\<forall>k \<in> A. g k \<le> f k" using assms(3,4) by (metis le_less)
  show "\<exists>k \<in> A. g k < f k" using assms(2,3) by blast
qed (fact assms(1))

lemma serve_decreases:
  assumes "serve_step eng enc dec w w'" and "touched_inv w"
  shows "(w', w) \<in> measures [to_read, to_evaluate, to_show, to_write]"
proof -
  have same: "touched w' = touched w" using serve_keeps [OF assms(1)] by (simp add: touched_def)
  have fin: "finite (touched w)" using assms(2) by (simp add: touched_inv_def)
  from assms(1) show ?thesis
  proof (cases rule: serve_step.cases)
    case (serve_read c req s' t)
    have "c \<in> touched w"
      using serve_read(4) assms(2) by (auto simp: touched_inv_def read_frame_Got_iff)
    moreover have "length (incoming s') < length (incoming (wi_stream w c))"
      by (rule read_frame_shrinks [OF serve_read(4)])
    ultimately have "to_read w' < to_read w"
      unfolding to_read_def same using serve_read(1,3)
      by (intro sum_one_less [OF fin, of c]) simp_all
    then show ?thesis by simp
  next
    case (serve_run t)
    have empty: "cc_input (wi_conc w) = (\<lambda>_. [])" using assms(2) by (simp add: touched_inv_def)
    have busy: "c \<in> touched w" if "cc_phase (wi_conc w) c \<noteq> RunIdle" for c
      using that assms(2) by (auto simp: touched_inv_def)
    have "to_read w' = to_read w" using same serve_run(1) by (simp add: to_read_def)
    moreover have "to_evaluate w' < to_evaluate w \<or> to_evaluate w' = to_evaluate w \<and> to_show w' < to_show w"
      using serve_run(2)
    proof (cases rule: conc_step.cases)
      case (conc_acquire c q rid source isolated ctx texts r ienv' env' ctx')
      have "to_evaluate w' < to_evaluate w"
        unfolding to_evaluate_def same using conc_acquire serve_run(1) busy [of c]
        by (intro sum_one_less [OF fin, of c]) simp_all
      then show ?thesis ..
    next
      case (conc_display c rid source isolated msg texts outcome ienv' env' ctx')
      have "to_show w' < to_show w"
        unfolding to_show_def same using conc_display serve_run(1) busy [of c]
        by (intro sum_one_less [OF fin, of c]) simp_all
      moreover have "to_evaluate w' = to_evaluate w"
        unfolding to_evaluate_def same using conc_display serve_run(1) by (intro sum.cong) auto
      ultimately show ?thesis by blast
    next
      case (conc_finish c rid source isolated outcome ienv' env' ctx')
      have "to_evaluate w' < to_evaluate w"
        unfolding to_evaluate_def same using conc_finish serve_run(1) busy [of c]
        by (intro sum_one_less [OF fin, of c]) simp_all
      then show ?thesis ..
    qed (use empty in simp_all)
    ultimately show ?thesis by auto
  next
    case (serve_close c)
    have "c \<in> touched w" using serve_close(4) by (simp add: touched_def read_frame_none_iff)
    then have "to_read w' < to_read w"
      unfolding to_read_def same using serve_close(1,3)
      by (intro sum_one_less [OF fin, of c]) simp_all
    then show ?thesis by simp
  next
    case (serve_fail c e)
    have "c \<in> touched w"
    proof (rule ccontr)
      assume "c \<notin> touched w"
      then have "incoming (wi_stream w c) = []" "ending (wi_stream w c) = StillOpen"
        using assms(2) by (simp_all add: touched_inv_def) (simp add: touched_def)
      with serve_fail(4) show False by (simp add: read_frame_empty)
    qed
    then have "to_read w' < to_read w"
      unfolding to_read_def same using serve_fail(1,3)
      by (intro sum_one_less [OF fin, of c]) simp_all
    then show ?thesis by simp
  next
    case (serve_write c s' r)
    have c: "c \<in> touched w" using serve_write(3) assms(2) by (auto simp: touched_inv_def)
    have "incoming s' = incoming (wi_stream w c)" using write_frame_touches [OF serve_write(4)] by auto
    then have "to_read w' = to_read w"
      unfolding to_read_def same using serve_write(1) by (intro sum.cong) auto
    moreover have "to_evaluate w' = to_evaluate w" "to_show w' = to_show w"
      using same serve_write(1) by (simp_all add: to_evaluate_def to_show_def)
    moreover have "to_write w' < to_write w"
      unfolding to_write_def same using serve_write(1-3) c
      by (intro sum_one_less [OF fin, of c]) auto
    ultimately show ?thesis by simp
  qed
qed

interpretation finite_work: relative_invariant "wired_init d0" "wired_step eng enc dec" "wired_inv eng enc dec d0" touched_inv
  for eng :: "('e, 'cfg, 'ib, 'l) engine" and enc dec d0
proof
  fix w w' :: "('e, 'cfg, 'ib, 'l) wired"
  show "touched_inv w" if "wired_init d0 w"
    using that by (auto simp: wired_init_def touched_inv_def touched_def conc_init_def)
  show "touched_inv w'" if "wired_step eng enc dec w w'" and "wired_inv eng enc dec d0 w" and "touched_inv w"
  proof -
    have "run_inv eng d0 (wi_conc w)" using wired_conc(1,3) [OF that(2)] by (simp add: run_inv_def)
    with that show ?thesis by (auto simp: wired_step_def intro: touched_peer touched_serve)
  qed
qed

lemma reach_serve:
  assumes "reachable (wired_init d0) (wired_step eng enc dec) w" and "serve_step eng enc dec w v"
  shows "reachable (wired_init d0) (wired_step eng enc dec) v"
proof (rule reach_step [OF assms(1)])
  show "wired_step eng enc dec w v" using assms(2) by (simp add: wired_step_def)
qed

lemma serve_wf: "wf (measures [to_read, to_evaluate, to_show, to_write])"
  by (rule wf_measures)

lemma serve_to_rest:
  assumes "reachable (wired_init d0) (wired_step eng enc dec) w"
  shows "\<exists>w'. (serve_step eng enc dec)\<^sup>*\<^sup>* w w' \<and> at_rest eng enc dec w'"
  using assms
proof (induction w rule: wf_induct_rule [OF serve_wf])
  case (1 w)
  show ?case
  proof (cases "at_rest eng enc dec w")
    case False
    then obtain v where v: "serve_step eng enc dec w v" by (auto simp: at_rest_def)
    have "touched_inv w" using finite_work.both.always [OF "1.prems"] by blast
    from serve_decreases [OF v this] have "(v, w) \<in> measures [to_read, to_evaluate, to_show, to_write]" .
    moreover note reach_serve [OF "1.prems" v]
    ultimately obtain w' where "(serve_step eng enc dec)\<^sup>*\<^sup>* v w'" "at_rest eng enc dec w'"
      using "1.IH" by blast
    with v show ?thesis by (meson converse_rtranclp_into_rtranclp)
  qed auto
qed


lemma serve_room:
  assumes "(serve_step eng enc dec)\<^sup>*\<^sup>* w w'" and "room (wi_stream w c) = None"
  shows "room (wi_stream w' c) = None"
  using assms
proof (induction rule: rtranclp_induct)
  case (step v v')
  have keeps: "room s' = None" if "write_frame enc m s = (s', r)" "room s = None" for m s s' r
    using that by (auto simp: write_frame_def write_all_unlimited split: sum.splits if_splits)
  from step.hyps(2) step.IH [OF step.prems] show ?case
    by (cases rule: serve_step.cases) (auto dest: read_frame_same keeps)
qed

lemma log_of_one:
  assumes "\<And>k. k \<noteq> c \<Longrightarrow> of_conn k log = []"
  shows "log = map (Pair c) (of_conn c log)"
  using assms
proof (induction log)
  case (Cons job log)
  obtain k req where job: "job = (k, req)" by fastforce
  have "k = c"
    using Cons.prems [of k] by (auto simp: job of_conn_def)
  moreover have "of_conn j log = []" if "j \<noteq> c" for j
    using Cons.prems [OF that] by (simp add: job of_conn_def split: if_splits)
  ultimately show ?case using Cons.IH by (simp add: job of_conn_def)
qed (simp add: of_conn_def)

definition sample_sent_reqs :: "request list" where
  "sample_sent_reqs = [Ping, Eval 1 (lit ''x'') False]"

definition sample_answers :: "response list" where
  "sample_answers = [Pong, Display 1 (lit ''x''), EvalResult 1 (Ok (Some (lit ''x'')))]"

lemma sample_fit:
  "list_all (frame_ok (table_enc sample_reqs) (table_dec sample_reqs)) sample_sent_reqs"
  "list_all (frame_ok (table_enc sample_resps) (table_dec sample_resps)) sample_answers"
  by (simp_all add: frame_ok_def table_enc_def table_dec_def sample_reqs_def sample_resps_def
      sample_sent_reqs_def sample_answers_def)

lemma sample_serve_all: "out_of (serve_log sample_engine sample_daemon (map (Pair 0) sample_sent_reqs)) 0 = sample_answers"
  by (simp add: sample_sent_reqs_def sample_answers_def serve_log_def serve_one_def out_of_def handle_request_def
      eval_request_def run_evaluation_def display_responses_def display_output_def set_display_sink_def
      render_result_def sample_engine_def sample_daemon_def Let_def)

lemma sample_serve_out:
  assumes "prefix reqs sample_sent_reqs"
  shows "prefix (out_of (serve_log sample_engine sample_daemon (map (Pair 0) reqs)) 0) sample_answers"
proof -
  have "reqs = [] \<or> reqs = [Ping] \<or> reqs = sample_sent_reqs"
    using assms by (auto simp: prefix_Cons sample_sent_reqs_def)
  then show ?thesis using sample_serve_all
    by (auto simp: serve_log_def serve_one_def out_of_def handle_request_def sample_answers_def)
qed

lemma prefix_list_all: "prefix xs ys \<Longrightarrow> list_all P ys \<Longrightarrow> list_all P xs"
  by (auto elim!: prefixE)

lemma sample_rest:
  "\<exists>w. sample_wires w \<and> at_rest sample_engine (table_enc sample_resps) (table_dec sample_reqs) w \<and>
     wi_arrived w 0 = frames_of (table_enc sample_reqs) sample_sent_reqs \<and>
     room (wi_stream w 0) = None \<and>
     list_all (frame_ok (table_enc sample_resps) (table_dec sample_resps))
       (out_of (serve_log sample_engine sample_daemon (cc_log (wi_conc w))) 0) \<and>
     cc_log (wi_conc w) = map (Pair 0) sample_sent_reqs \<and>
     outgoing (wi_stream w 0) = frames_of (table_enc sample_resps) sample_answers"
proof -
  let ?step = "serve_step sample_engine (table_enc sample_resps) (table_dec sample_reqs)"
  obtain w where w: "?step\<^sup>*\<^sup>* sample_sent w" "at_rest sample_engine (table_enc sample_resps) (table_dec sample_reqs) w"
    using serve_to_rest [OF sample_sent_reachable] by blast
  have r: "sample_wires w"
    using w(1) sample_sent_reachable by (induction rule: rtranclp_induct) (auto intro: reach_serve)
  have "wi_arrived w = wi_arrived sample_sent"
    using w(1) by (induction rule: rtranclp_induct) (auto simp: serve_keeps(1))
  then have arrived: "wi_arrived w 0 = frames_of (table_enc sample_reqs) sample_sent_reqs" "\<And>k. k \<noteq> 0 \<Longrightarrow> wi_arrived w k = []"
    by (simp_all add: sample_sent_def sent_def sample_wired_def frames_of_def frame_bytes_def table_enc_def
        sample_reqs_def to_be_bytes_def sample_sent_reqs_def)
  have room: "room (wi_stream w 0) = None"
    by (rule serve_room [OF w(1)]) (simp add: sample_sent_def sent_def sample_wired_def)
  have inv: "wired_inv sample_engine (table_enc sample_resps) (table_dec sample_reqs) sample_daemon w"
    by (rule wired.always [OF r])
  have read: "read_ok (table_enc sample_reqs) w k reqs"
    if "list_all (frame_ok (table_enc sample_reqs) (table_dec sample_reqs)) reqs"
      "wi_arrived w k = frames_of (table_enc sample_reqs) reqs" for k reqs
    using inv that by (simp add: wired_inv_def reading_inv_def frames_of_def)
  have mine: "prefix (wi_requests w 0) sample_sent_reqs"
    using read [OF sample_fit(1) arrived(1)] unfolding read_ok_def by (metis prefixI)
  have "wi_requests w k = []" if "k \<noteq> 0" for k
    using read [of "[]" k] arrived(2) [OF that] by (auto simp: read_ok_def frames_of_def)
  then have "of_conn k (cc_log (wi_conc w)) = []" if "k \<noteq> 0" for k
    using wired_conc(4) [OF inv, of k] that by simp
  then have log: "cc_log (wi_conc w) = map (Pair 0) (of_conn 0 (cc_log (wi_conc w)))"
    by (rule log_of_one)
  have "prefix (of_conn 0 (cc_log (wi_conc w))) sample_sent_reqs"
    using wired_conc(4) [OF inv, of 0] mine by (metis prefixI prefix_order.trans)
  then have "prefix (out_of (serve_log sample_engine sample_daemon (cc_log (wi_conc w))) 0) sample_answers"
    using sample_serve_out log by metis
  note fits = prefix_list_all [OF this sample_fit(2)]
  have "Stop \<notin> set sample_sent_reqs" by (simp add: sample_sent_reqs_def)
  from rest_complete [OF r w(2) sample_fit(1) arrived(1) this room fits] log
  have "cc_log (wi_conc w) = map (Pair 0) sample_sent_reqs"
    and "outgoing (wi_stream w 0) = frames_of (table_enc sample_resps)
      (out_of (serve_log sample_engine sample_daemon (cc_log (wi_conc w))) 0)"
    by simp_all
  with r w(2) arrived(1) room fits sample_serve_all show ?thesis by auto
qed



end
