(* ===== verification/Zs_Repl.thy ===== *)
theory Zs_Repl
  imports Zs_Lines Zs_Ipc
begin

text \<open>
  The interactive loop (\<open>src/src/repl.rs\<close>): one step per event of the line editor, over the line
  buffer, the parenthesis depth and an evaluation backend.  The editor itself (rustyline) is the
  source of the events; \<open>strip_comments\<close> is a function of \<open>ma-zscheme\<close>'s parser and a parameter.
\<close>

section \<open>The terminal and the evaluation backend\<close>

datatype console = StdOut rstr | StdErr rstr

definition println :: "rstr \<Rightarrow> console" where
  "println s = StdOut (s @ [newline])"

definition eprintln :: "rstr \<Rightarrow> console" where
  "eprintln s = StdErr (s @ [newline])"

text \<open>
  The trait \<open>ReplEval\<close>: what an evaluation prints, its outcome, and the backend's new state.
  \<open>None\<close> is an evaluation that has not returned, as when a daemon does not answer.
\<close>

type_synonym 's repl_eval = "rstr \<Rightarrow> 's \<Rightarrow> console list \<times> outcome option \<times> 's"

text \<open>The in-process backend \<open>LocalEval\<close>: \<open>eval_line\<close>, its result rendered.\<close>

definition local_eval ::
  "('l scheme_val \<Rightarrow> rstr) \<Rightarrow> (rstr \<Rightarrow> ('w, 'l) evaluation) \<Rightarrow> (rstr \<Rightarrow> ('w, 'l) evaluation) \<Rightarrow>
     'w repl_eval" where
  "local_eval display dot_eval eval_source source w =
     (case eval_line dot_eval eval_source source w of
        (texts, r, w') \<Rightarrow> (map StdOut texts, Some (render_result display r), w'))"

section \<open>The loop\<close>

datatype readline_event = Line rstr | Interrupted | Eof | ReadlineFails rstr

text \<open>\<open>history\<close> is what the editor was given: the entries of the history file and those passed to
  \<open>add_history_entry\<close>, in order.  Which of them the editor keeps, repetitions or the oldest beyond its
  limit, is the editor's affair.\<close>

record 's repl =
  buffer :: rstr
  depth :: int
  history :: "rstr list"
  backend :: 's

datatype flow = Continue | Break | Blocked

definition prompt :: "'s repl \<Rightarrow> rstr" where
  "prompt st = (if buffer st = [] then lit ''zscheme> '' else lit ''    ... '')"

definition is_note_line :: "rstr \<Rightarrow> bool" where
  "is_note_line l = starts_with (trim_start l) (lit '';'')"

definition is_quit_line :: "rstr \<Rightarrow> bool" where
  "is_quit_line l \<longleftrightarrow> trim l \<in> {lit '':quit'', lit '':q'', lit '':exit'', lit ''(exit)''}"

text \<open>The depth counter is an \<open>i32\<close>; it is an integer here, and a lemma below bounds it by the
  number of characters seen.\<close>

fun paren_depth :: "int \<Rightarrow> rstr \<Rightarrow> int" where
  "paren_depth d [] = d"
| "paren_depth d (c # cs) =
     paren_depth (if c = chr CHR ''('' then d + 1 else if c = chr CHR '')'' then d - 1 else d) cs"

fun show_outcome :: "outcome \<Rightarrow> console list" where
  "show_outcome (Ok None) = []"
| "show_outcome (Ok (Some msg)) = [println msg]"
| "show_outcome (Err msg) = [eprintln msg]"

definition submit :: "'s repl_eval \<Rightarrow> 's repl \<Rightarrow> console list \<times> 's repl \<times> flow" where
  "submit ev st =
     (let source = trim (buffer st); st' = st\<lparr>depth := 0, buffer := []\<rparr> in
      if source = [] then ([], st', Continue)
      else
        (case ev source (backend st') of
           (outs, None, s') \<Rightarrow> (outs, st'\<lparr>backend := s'\<rparr>, Blocked)
         | (outs, Some outcome, s') \<Rightarrow>
             (outs @ show_outcome outcome, st'\<lparr>backend := s'\<rparr>, Continue)))"

definition repl_line ::
  "(rstr \<Rightarrow> rstr) \<Rightarrow> 's repl_eval \<Rightarrow> rstr \<Rightarrow> 's repl \<Rightarrow> console list \<times> 's repl \<times> flow" where
  "repl_line strip_comments ev l st =
     (let st1 = (if buffer st = [] \<and> trim l \<noteq> [] then st\<lparr>history := history st @ [l]\<rparr> else st) in
      if buffer st = [] \<and> is_quit_line l then ([], st1, Break)
      else if buffer st = [] \<and> is_note_line l then ([], st1, Continue)
      else
        (let st2 = st1\<lparr>depth := paren_depth (depth st1) (strip_comments l),
                       buffer := buffer st1 @ l @ [newline]\<rparr> in
         if depth st2 \<le> 0 then submit ev st2 else ([], st2, Continue)))"

definition repl_step ::
  "(rstr \<Rightarrow> rstr) \<Rightarrow> 's repl_eval \<Rightarrow> readline_event \<Rightarrow> 's repl \<Rightarrow> console list \<times> 's repl \<times> flow" where
  "repl_step strip_comments ev event st =
     (case event of
        Line l \<Rightarrow> repl_line strip_comments ev l st
      | Interrupted \<Rightarrow>
          if buffer st = [] then ([eprintln (lit ''^C  (Ctrl-D or (exit) to quit)'')], st, Continue)
          else ([eprintln (lit ''^C'')], st\<lparr>buffer := [], depth := 0\<rparr>, Continue)
      | Eof \<Rightarrow> ([], st, Break)
      | ReadlineFails e \<Rightarrow> ([eprintln (lit ''readline error: '' @ e)], st, Break))"

text \<open>The loop over the events, until it is left, an evaluation does not return, or the events so
  far are used up (then it waits for more).\<close>

fun repl_loop ::
  "(rstr \<Rightarrow> rstr) \<Rightarrow> 's repl_eval \<Rightarrow> readline_event list \<Rightarrow> 's repl \<Rightarrow> console list \<times> 's repl \<times> flow" where
  "repl_loop strip_comments ev [] st = ([], st, Continue)"
| "repl_loop strip_comments ev (e # es) st =
     (case repl_step strip_comments ev e st of
        (outs, st', Continue) \<Rightarrow>
          (case repl_loop strip_comments ev es st' of (outs', r) \<Rightarrow> (outs @ outs', r))
      | r \<Rightarrow> r)"

definition repl_banner :: console where
  "repl_banner = eprintln (lit ''zscheme  '' @ em_dash # lit ''  Ctrl-D or (exit) to quit'' @ [newline])"

definition repl_start :: "rstr list \<Rightarrow> 's \<Rightarrow> 's repl" where
  "repl_start loaded s = \<lparr>buffer = [], depth = 0, history = loaded, backend = s\<rparr>"

text \<open>
  \<open>run_repl\<close>: \<open>loaded\<close> is what loading the history file gave.  The report has the console output,
  the history that is saved to its file (if the loop was left and there is a path), the backend, and
  the result once it returns.
\<close>

record 's repl_report =
  rep_console :: "console list"
  rep_saved :: "(path \<times> rstr list) option"
  rep_backend :: 's
  rep_result :: "(rstr, unit) result option"

definition run_repl ::
  "(rstr \<Rightarrow> rstr) \<Rightarrow> 's repl_eval \<Rightarrow> path option \<Rightarrow> rstr list \<Rightarrow> (rstr, unit) result \<Rightarrow> readline_event list \<Rightarrow> 's \<Rightarrow>
     's repl_report" where
  "run_repl strip_comments ev history_path loaded editor es s =
     (case editor of
        Err e \<Rightarrow> \<lparr>rep_console = [], rep_saved = None, rep_backend = s,
                  rep_result = Some (Err (lit ''readline init: '' @ e))\<rparr>
      | Ok _ \<Rightarrow>
          (case repl_loop strip_comments ev es (repl_start loaded s) of
             (outs, st, Break) \<Rightarrow>
               \<lparr>rep_console = repl_banner # outs, rep_saved = map_option (\<lambda>p. (p, history st)) history_path,
                rep_backend = backend st, rep_result = Some (Ok ())\<rparr>
           | (outs, st, _) \<Rightarrow>
               \<lparr>rep_console = repl_banner # outs, rep_saved = None, rep_backend = backend st,
                rep_result = None\<rparr>))"

text \<open>The directory is created on the way; whether that worked is not looked at.\<close>

definition history_file_path :: "base_dirs option \<Rightarrow> path option \<times> fs_effect list" where
  "history_file_path dirs =
     (case dirs of
        None \<Rightarrow> (None, [])
      | Some b \<Rightarrow>
          (let dir = path_join (data_dir b) (lit ''ma'') in
           (Some (path_join dir (lit ''zscheme_history'')), [CreateDirAll dir])))"

end
