(* ===== verification/Zs_Client.thy ===== *)
theory Zs_Client
  imports Zs_Repl Zs_Daemon
begin

text \<open>
  The frontend (\<open>src/src/client.rs\<close>): connecting to the daemon and starting it when there is none,
  the version handshake, an evaluation over the byte stream, and the entry points \<open>run\<close>, \<open>stop\<close>,
  \<open>reset\<close> and \<open>save\<close>.
\<close>

section \<open>Errors and the stream after a failed read\<close>

datatype client_error = ClientIpc ipc_error | ClientMsg rstr

text \<open>An error's text; \<open>eof_text\<close> is what the runtime says of a stream that ended early.\<close>

fun show_ipc_error :: "rstr \<Rightarrow> ipc_error \<Rightarrow> rstr" where
  "show_ipc_error eof_text (CborEncode e) = lit ''cbor encode''"
| "show_ipc_error eof_text FrameTooLong = lit ''frame too large''"
| "show_ipc_error eof_text (IoError e) = e"
| "show_ipc_error eof_text UnexpectedEof = eof_text"
| "show_ipc_error eof_text (FrameTooLarge len) =
     lit ''IPC frame too large: '' @ nat_digits (unat len) @ lit '' bytes''"
| "show_ipc_error eof_text (CborDecode e) = lit ''cbor decode''"

fun show_client_error :: "rstr \<Rightarrow> client_error \<Rightarrow> rstr" where
  "show_client_error eof_text (ClientIpc e) = show_ipc_error eof_text e"
| "show_client_error eof_text (ClientMsg msg) = msg"

text \<open>What a \<open>read_frame\<close> that gave no message leaves unread: a failed \<open>read_exact\<close> has taken
  whatever there was.\<close>

definition read_frame_rest :: "ipc_stream \<Rightarrow> ipc_stream" where
  "read_frame_rest s =
     (case read_exact 4 s of
        ExactGot len_bytes s1 \<Rightarrow>
          if max_frame_len < from_be_bytes len_bytes then s1
          else (case read_exact (unat (from_be_bytes len_bytes)) s1 of
                  ExactGot buf s2 \<Rightarrow> s2
                | _ \<Rightarrow> s1\<lparr>incoming := []\<rparr>)
      | _ \<Rightarrow> s\<lparr>incoming := []\<rparr>)"

section \<open>The client\<close>

record client =
  cl_stream :: ipc_stream
  cl_next_id :: u64
  cl_isolated :: bool
  cl_dangling :: bool

datatype 'a awaited = Waiting | Returned "(client_error, 'a) result"

text \<open>
  The response loop of an evaluation: what it prints, the stream, the dangling flag, and the
  outcome, an error, or that it waits for more data.
\<close>

definition dangles :: "bool \<Rightarrow> rstr \<Rightarrow> bool" where
  "dangles dangling txt = (if txt \<noteq> [] then \<not> ends_with_char txt newline else dangling)"

function await_result ::
  "(bytes \<Rightarrow> (rstr, response) result) \<Rightarrow> u64 \<Rightarrow> ipc_stream \<Rightarrow> bool \<Rightarrow>
     console list \<times> ipc_stream \<times> bool \<times> outcome awaited" where
  "await_result from_reader rid s dangling =
     (case read_frame from_reader s of
        FramePending \<Rightarrow> ([], s, dangling, Waiting)
      | FrameNone \<Rightarrow>
          ([], read_frame_rest s, dangling, Returned (Err (ClientMsg (lit ''daemon closed connection''))))
      | FrameErr e \<Rightarrow> ([], read_frame_rest s, dangling, Returned (Err (ClientIpc e)))
      | FrameGot resp s' \<Rightarrow>
          (let again = await_result from_reader rid s' in
           case resp of
             Display i txt \<Rightarrow>
               if i = rid then
                 (case again (dangles dangling txt) of (outs, r) \<Rightarrow> (StdOut txt # outs, r))
               else again dangling
           | EvalResult i outcome \<Rightarrow>
               if i = rid then ([], s', dangling, Returned (Ok outcome)) else again dangling
           | _ \<Rightarrow> again dangling))"
  by pat_completeness auto
termination
  by (relation "measure (\<lambda>(dec, rid, s, dangling). length (incoming s))") (auto dest: read_frame_shrinks)

declare await_result.simps [simp del]

text \<open>\<open>DaemonClient::eval\<close>; the request number wraps at 64 bits.\<close>

definition client_eval ::
  "(request \<Rightarrow> (rstr, bytes) result) \<Rightarrow> (bytes \<Rightarrow> (rstr, response) result) \<Rightarrow> rstr \<Rightarrow> client \<Rightarrow>
     console list \<times> outcome awaited \<times> client" where
  "client_eval into_writer from_reader source c =
     (let rid = cl_next_id c;
          c1 = c\<lparr>cl_next_id := rid + 1, cl_dangling := False\<rparr> in
      case write_frame into_writer (Eval rid source (cl_isolated c)) (cl_stream c) of
        (s, Err e) \<Rightarrow> ([], Returned (Err (ClientIpc e)), c1\<lparr>cl_stream := s\<rparr>)
      | (s, Ok _) \<Rightarrow>
          (case await_result from_reader rid s False of
             (outs, s', dangling, r) \<Rightarrow> (outs, r, c1\<lparr>cl_stream := s', cl_dangling := dangling\<rparr>)))"

text \<open>The REPL's backend over a client, \<open>ClientEval\<close>.\<close>

definition client_repl_eval ::
  "rstr \<Rightarrow> (request \<Rightarrow> (rstr, bytes) result) \<Rightarrow> (bytes \<Rightarrow> (rstr, response) result) \<Rightarrow> client repl_eval" where
  "client_repl_eval eof_text into_writer from_reader source c =
     (case client_eval into_writer from_reader source c of
        (outs, Waiting, c') \<Rightarrow> (outs, None, c')
      | (outs, Returned r, c') \<Rightarrow>
          (let outcome = (case r of
                 Ok outcome \<Rightarrow> outcome
               | Err e \<Rightarrow> Err (lit ''ipc error: '' @ show_client_error eof_text e)) in
           if cl_dangling c' then (outs @ [println []], Some outcome, c'\<lparr>cl_dangling := False\<rparr>)
           else (outs, Some outcome, c')))"

section \<open>The handshake\<close>

definition hello_mismatch :: "rstr \<Rightarrow> rstr" where
  "hello_mismatch version =
     lit ''daemon version '' @ version @ lit '' does not match client '' @ pkg_version @ lit '' ''
       @ em_dash # lit '' run `zscheme --stop` and try again''"

text \<open>\<open>debug\<close> is the derived debug form of a response, used in the message only.\<close>

definition hello ::
  "(request \<Rightarrow> (rstr, bytes) result) \<Rightarrow> (bytes \<Rightarrow> (rstr, response) result) \<Rightarrow> (response \<Rightarrow> rstr) \<Rightarrow>
     client \<Rightarrow> unit awaited \<times> client" where
  "hello into_writer from_reader debug c =
     (case write_frame into_writer (Hello pkg_version) (cl_stream c) of
        (s, Err e) \<Rightarrow> (Returned (Err (ClientIpc e)), c\<lparr>cl_stream := s\<rparr>)
      | (s, Ok _) \<Rightarrow>
          (case read_frame from_reader s of
             FramePending \<Rightarrow> (Waiting, c\<lparr>cl_stream := s\<rparr>)
           | FrameNone \<Rightarrow>
               (Returned (Err (ClientMsg (lit ''daemon closed connection during handshake''))),
                c\<lparr>cl_stream := read_frame_rest s\<rparr>)
           | FrameErr e \<Rightarrow> (Returned (Err (ClientIpc e)), c\<lparr>cl_stream := read_frame_rest s\<rparr>)
           | FrameGot resp s' \<Rightarrow>
               (case resp of
                  HelloAck version d \<Rightarrow>
                    if version \<noteq> pkg_version
                    then (Returned (Err (ClientMsg (hello_mismatch version))), c\<lparr>cl_stream := s'\<rparr>)
                    else (Returned (Ok ()), c\<lparr>cl_stream := s'\<rparr>)
                | other \<Rightarrow>
                    (Returned (Err (ClientMsg (lit ''unexpected handshake reply: '' @ debug other))),
                     c\<lparr>cl_stream := s'\<rparr>))))"

section \<open>Connecting, and starting the daemon\<close>

definition spawn_retries :: nat where
  "spawn_retries = 40"

definition spawn_retry_delay :: nat where
  "spawn_retry_delay = 250"

datatype connect_effect = Connected nat | ConnectFailed nat | DaemonSpawned | SpawnFailed | Slept nat

text \<open>The process \<open>spawn_daemon\<close> starts: both of its outputs go to the log.\<close>

record daemon_command =
  dc_exe :: path
  dc_args :: "rstr list"
  dc_stdin_null :: bool
  dc_log :: path
  dc_process_group :: "int option"

definition spawn_daemon ::
  "platform \<Rightarrow> (rstr, path) result \<Rightarrow> (rstr, path) result \<Rightarrow> (path \<Rightarrow> (rstr, 'h) result) \<Rightarrow>
     ('h \<Rightarrow> (rstr, 'h) result) \<Rightarrow> (daemon_command \<Rightarrow> (rstr, unit) result) \<Rightarrow>
     (rstr, daemon_command) result" where
  "spawn_daemon os current_exe log_path open_append try_clone spawn =
     (case current_exe of
        Err e \<Rightarrow> Err (lit ''cannot resolve zscheme executable path'')
      | Ok exe \<Rightarrow>
          and_then log_path (\<lambda>path.
          and_then (open_append path) (\<lambda>log.
          and_then (try_clone log) (\<lambda>log_err.
            (let cmd = \<lparr>dc_exe = exe, dc_args = [lit ''daemon''], dc_stdin_null = True, dc_log = path,
                        dc_process_group = (case os of Unix \<Rightarrow> Some 0 | Windows \<Rightarrow> None)\<rparr> in
             case spawn cmd of
               Err e \<Rightarrow> Err (lit ''cannot spawn zscheme daemon'')
             | Ok _ \<Rightarrow> Ok cmd)))))"

text \<open>\<open>attempt k\<close> is the \<open>k\<close>-th call of \<open>connect_socket\<close>, from 0; \<open>n\<close> retries remain.\<close>

fun retry_connect ::
  "(nat \<Rightarrow> (rstr, 'c) result) \<Rightarrow> nat \<Rightarrow> nat \<Rightarrow> 'c option \<times> connect_effect list" where
  "retry_connect attempt k 0 = (None, [])"
| "retry_connect attempt k (Suc n) =
     (case attempt k of
        Ok s \<Rightarrow> (Some s, [Slept spawn_retry_delay, Connected k])
      | Err _ \<Rightarrow>
          (case retry_connect attempt (Suc k) n of
             (r, effs) \<Rightarrow> (r, [Slept spawn_retry_delay, ConnectFailed k] @ effs)))"

definition open_stream ::
  "(nat \<Rightarrow> (rstr, 'c) result) \<Rightarrow> (rstr, daemon_command) result \<Rightarrow> (rstr, path) result \<Rightarrow>
     (rstr, 'c) result \<times> connect_effect list" where
  "open_stream attempt spawned log_path =
     (case attempt 0 of
        Ok s \<Rightarrow> (Ok s, [Connected 0])
      | Err _ \<Rightarrow>
          (case spawned of
             Err e \<Rightarrow> (Err e, [ConnectFailed 0, SpawnFailed])
           | Ok _ \<Rightarrow>
               (case retry_connect attempt 1 spawn_retries of
                  (r, effs) \<Rightarrow>
                    (ok_or (lit ''zscheme daemon failed to start '' @ em_dash # lit '' check ''
                        @ (case log_path of Err _ \<Rightarrow> lit ''the daemon log'' | Ok p \<Rightarrow> p)) r,
                     [ConnectFailed 0, DaemonSpawned] @ effs))))"

definition connect_or_spawn ::
  "(request \<Rightarrow> (rstr, bytes) result) \<Rightarrow> (bytes \<Rightarrow> (rstr, response) result) \<Rightarrow> (response \<Rightarrow> rstr) \<Rightarrow>
     (nat \<Rightarrow> (rstr, ipc_stream) result) \<Rightarrow> (rstr, daemon_command) result \<Rightarrow> (rstr, path) result \<Rightarrow> bool \<Rightarrow>
     client awaited \<times> connect_effect list" where
  "connect_or_spawn into_writer from_reader debug attempt spawned log_path isolated =
     (case open_stream attempt spawned log_path of
        (Err e, effs) \<Rightarrow> (Returned (Err (ClientMsg e)), effs)
      | (Ok s, effs) \<Rightarrow>
          (case hello into_writer from_reader debug
                  \<lparr>cl_stream = s, cl_next_id = 1, cl_isolated = isolated, cl_dangling = False\<rparr> of
             (Waiting, c) \<Rightarrow> (Waiting, effs)
           | (Returned (Err e), c) \<Rightarrow> (Returned (Err e), effs)
           | (Returned (Ok _), c) \<Rightarrow> (Returned (Ok c), effs)))"

section \<open>Entry points\<close>

definition run_script ::
  "rstr \<Rightarrow> (request \<Rightarrow> (rstr, bytes) result) \<Rightarrow> (bytes \<Rightarrow> (rstr, response) result) \<Rightarrow>
     (path \<Rightarrow> (rstr, rstr) result) \<Rightarrow> path \<Rightarrow> client \<Rightarrow> console list \<times> unit awaited \<times> client" where
  "run_script eof_text into_writer from_reader read_to_string path c =
     (case read_to_string path of
        Err e \<Rightarrow> ([], Returned (Err (ClientMsg (lit ''cannot read script: '' @ path))), c)
      | Ok raw \<Rightarrow>
          (case client_eval into_writer from_reader (strip_shebang raw) c of
             (outs, Waiting, c') \<Rightarrow> (outs, Waiting, c')
           | (outs, Returned (Err e), c') \<Rightarrow> (outs, Returned (Err e), c')
           | (outs, Returned (Ok (Ok _)), c') \<Rightarrow> (outs, Returned (Ok ()), c')
           | (outs, Returned (Ok (Err msg)), c') \<Rightarrow>
               (outs @ [eprintln msg], Returned (Err (ClientMsg msg)), c')))"

definition repl_awaited :: "'s repl_report \<Rightarrow> console list \<times> unit awaited" where
  "repl_awaited rep =
     (rep_console rep,
      case rep_result rep of
        None \<Rightarrow> Waiting
      | Some (Err e) \<Rightarrow> Returned (Err (ClientMsg e))
      | Some (Ok _) \<Rightarrow> Returned (Ok ()))"

text \<open>\<open>session\<close> is the REPL over the client once it is connected.\<close>

definition client_run ::
  "rstr \<Rightarrow> (request \<Rightarrow> (rstr, bytes) result) \<Rightarrow> (bytes \<Rightarrow> (rstr, response) result) \<Rightarrow>
     (path \<Rightarrow> (rstr, rstr) result) \<Rightarrow> (client repl_eval \<Rightarrow> client \<Rightarrow> client repl_report) \<Rightarrow>
     client awaited \<Rightarrow> path option \<Rightarrow> console list \<times> unit awaited" where
  "client_run eof_text into_writer from_reader read_to_string session connected script =
     (case connected of
        Waiting \<Rightarrow> ([], Waiting)
      | Returned (Err e) \<Rightarrow> ([], Returned (Err e))
      | Returned (Ok c) \<Rightarrow>
          (case script of
             Some path \<Rightarrow>
               (case run_script eof_text into_writer from_reader read_to_string path c of
                  (outs, r, _) \<Rightarrow> (outs, r))
           | None \<Rightarrow> repl_awaited (session (client_repl_eval eof_text into_writer from_reader) c)))"

text \<open>\<open>connect_existing\<close>: any failure to connect, also to resolve the socket path, is no daemon.\<close>

definition connect_existing :: "(rstr, ipc_stream) result \<Rightarrow> ipc_stream option" where
  "connect_existing connected = (case connected of Ok s \<Rightarrow> Some s | Err _ \<Rightarrow> None)"

definition is_reset_done :: "response \<Rightarrow> bool" where
  "is_reset_done r = (case r of ResetDone \<Rightarrow> True | _ \<Rightarrow> False)"

definition is_env_dump :: "response \<Rightarrow> bool" where
  "is_env_dump r = (case r of EnvDump _ \<Rightarrow> True | _ \<Rightarrow> False)"

text \<open>A request that is sent, and the responses read until one matches.\<close>

definition request_until ::
  "(request \<Rightarrow> (rstr, bytes) result) \<Rightarrow> (bytes \<Rightarrow> (rstr, response) result) \<Rightarrow> request \<Rightarrow>
     (response \<Rightarrow> bool) \<Rightarrow> ipc_stream \<Rightarrow> ipc_stream \<times> response until_outcome" where
  "request_until into_writer from_reader req matches s =
     (case write_frame into_writer req s of
        (s1, Err e) \<Rightarrow> (s1, UntilErr e)
      | (s1, Ok _) \<Rightarrow> (s1, read_until from_reader matches s1))"

definition client_stop ::
  "(request \<Rightarrow> (rstr, bytes) result) \<Rightarrow> (bytes \<Rightarrow> (rstr, response) result) \<Rightarrow>
     (rstr, ipc_stream) result \<Rightarrow> console list \<times> unit awaited" where
  "client_stop into_writer from_reader connected =
     (case connect_existing connected of
        None \<Rightarrow> ([eprintln (lit ''no zscheme daemon running'')], Returned (Ok ()))
      | Some s \<Rightarrow>
          (case snd (request_until into_writer from_reader Stop is_stopping s) of
             UntilPending \<Rightarrow> ([], Waiting)
           | UntilErr e \<Rightarrow> ([], Returned (Err (ClientIpc e)))
           | _ \<Rightarrow> ([eprintln (lit ''zscheme daemon stopped'')], Returned (Ok ()))))"

definition client_reset ::
  "(request \<Rightarrow> (rstr, bytes) result) \<Rightarrow> (bytes \<Rightarrow> (rstr, response) result) \<Rightarrow>
     (rstr, ipc_stream) result \<Rightarrow> console list \<times> unit awaited" where
  "client_reset into_writer from_reader connected =
     (case connect_existing connected of
        None \<Rightarrow> ([eprintln (lit ''no zscheme daemon running '' @ em_dash # lit '' nothing to reset'')],
                Returned (Ok ()))
      | Some s \<Rightarrow>
          (case snd (request_until into_writer from_reader Reset is_reset_done s) of
             UntilPending \<Rightarrow> ([], Waiting)
           | UntilErr e \<Rightarrow> ([], Returned (Err (ClientIpc e)))
           | UntilNone \<Rightarrow>
               ([], Returned (Err (ClientMsg (lit ''daemon closed connection before confirming reset''))))
           | UntilFound _ _ \<Rightarrow> ([eprintln (lit ''session environment reset'')], Returned (Ok ()))))"

text \<open>\<open>save\<close> also gives the file it wrote, if any.\<close>

definition client_save ::
  "(request \<Rightarrow> (rstr, bytes) result) \<Rightarrow> (bytes \<Rightarrow> (rstr, response) result) \<Rightarrow>
     (path \<Rightarrow> rstr \<Rightarrow> (rstr, unit) result) \<Rightarrow> path option \<Rightarrow> (rstr, ipc_stream) result \<Rightarrow>
     console list \<times> (path \<times> rstr) option \<times> unit awaited" where
  "client_save into_writer from_reader write_file file connected =
     (case connect_existing connected of
        None \<Rightarrow> ([], None, Returned (Err (ClientMsg
                  (lit ''no zscheme daemon running '' @ em_dash # lit '' nothing to save''))))
      | Some s \<Rightarrow>
          (case snd (request_until into_writer from_reader DumpEnv is_env_dump s) of
             UntilPending \<Rightarrow> ([], None, Waiting)
           | UntilErr e \<Rightarrow> ([], None, Returned (Err (ClientIpc e)))
           | UntilFound (EnvDump source) _ \<Rightarrow>
               (case file of
                  None \<Rightarrow> ([StdOut source], None, Returned (Ok ()))
                | Some path \<Rightarrow>
                    (case write_file path source of
                       Err e \<Rightarrow> ([], None, Returned (Err (ClientMsg (lit ''cannot write '' @ path))))
                     | Ok _ \<Rightarrow> ([eprintln (lit ''session saved to '' @ path)], Some (path, source),
                               Returned (Ok ()))))
           | _ \<Rightarrow> ([], None, Returned (Err (ClientMsg
                    (lit ''daemon closed connection before sending the dump''))))))"

end
