(* ===== verification/Zs_Typing.thy ===== *)
theory Zs_Typing
  imports Zs_Repl
begin

text \<open>
  What the interactive loop does with what is typed: when a source is submitted and which one,
  what Ctrl-C discards, the bound on the depth counter, the source with a parenthesis in a string
  that is never submitted, and the contract under which two evaluation backends give the same
  session.
\<close>

section \<open>Balance\<close>

definition balance :: "rstr \<Rightarrow> int" where
  "balance s = int (count_list s (chr CHR ''('')) - int (count_list s (chr CHR '')''))"

lemma paren_depth_balance: "paren_depth d s = d + balance s"
  by (induction s arbitrary: d) (auto simp: balance_def)

lemma balance_le_length: "balance s \<le> int (length s)"
  using count_le_length [of s "chr CHR ''(''"] by (simp add: balance_def)

definition opens :: "(rstr \<Rightarrow> rstr) \<Rightarrow> rstr list \<Rightarrow> int" where
  "opens strip_comments ls = sum_list (map (balance \<circ> strip_comments) ls)"

lemma opens_simps [simp]:
  "opens sc [] = 0" "opens sc (l # ls) = balance (sc l) + opens sc ls"
  "opens sc (ls @ ks) = opens sc ls + opens sc ks"
  by (simp_all add: opens_def)

definition joined :: "rstr list \<Rightarrow> rstr" where
  "joined ls = concat (map (\<lambda>l. l @ [newline]) ls)"

lemma joined_simps [simp]: "joined [] = []" "joined (l # ls) = l @ newline # joined ls"
  "joined (ls @ ks) = joined ls @ joined ks"
  by (simp_all add: joined_def)

lemma joined_eq_Nil [simp]: "joined ls = [] \<longleftrightarrow> ls = []"
  by (cases ls) auto

section \<open>Lines of an unfinished expression\<close>

text \<open>A first line that starts an expression, with the lines after it: no depth of zero yet.\<close>

definition starts_expression :: "rstr list \<Rightarrow> bool" where
  "starts_expression ls \<longleftrightarrow> ls \<noteq> [] \<and> \<not> is_quit_line (hd ls) \<and> \<not> is_note_line (hd ls)"

definition unfinished :: "(rstr \<Rightarrow> rstr) \<Rightarrow> rstr list \<Rightarrow> bool" where
  "unfinished sc ls \<longleftrightarrow> (\<forall>k. 0 < k \<and> k \<le> length ls \<longrightarrow> 0 < opens sc (take k ls))"

definition remembered :: "rstr list \<Rightarrow> rstr list" where
  "remembered ls = (case ls of [] \<Rightarrow> [] | l # _ \<Rightarrow> if trim l = [] then [] else [l])"

definition idle :: "'s repl \<Rightarrow> bool" where
  "idle st \<longleftrightarrow> buffer st = [] \<and> depth st = 0"

definition typing :: "(rstr \<Rightarrow> rstr) \<Rightarrow> rstr list \<Rightarrow> 's repl \<Rightarrow> 's repl" where
  "typing sc ls st = st\<lparr>buffer := joined ls, depth := opens sc ls, history := history st @ remembered ls\<rparr>"

lemma unfinished_prefix: "unfinished sc (ls @ ks) \<Longrightarrow> unfinished sc ls"
  by (fastforce simp: unfinished_def)

lemma unfinished_opens: "unfinished sc ls \<Longrightarrow> ls \<noteq> [] \<Longrightarrow> 0 < opens sc ls"
  by (simp add: unfinished_def) (metis length_greater_0_conv order_refl take_all)

lemma typing_first:
  assumes "idle st" and "starts_expression [l]"
  shows "repl_line sc ev l st =
    (if opens sc [l] \<le> 0 then submit ev (typing sc [l] st) else ([], typing sc [l] st, Continue))"
  using assms
  by (cases st) (simp add: repl_line_def typing_def starts_expression_def idle_def remembered_def Let_def
      paren_depth_balance)

lemma typing_more:
  assumes "ls \<noteq> []"
  shows "repl_line sc ev l (typing sc ls st) =
    (if opens sc (ls @ [l]) \<le> 0 then submit ev (typing sc (ls @ [l]) st)
     else ([], typing sc (ls @ [l]) st, Continue))"
proof -
  obtain k ks where "ls = k # ks" using assms by (cases ls) auto
  then show ?thesis
    by (cases st) (simp add: repl_line_def typing_def Let_def paren_depth_balance remembered_def add.assoc)
qed

lemma repl_line_typing:
  assumes "idle st" and "starts_expression (ls @ [l])"
  shows "repl_line sc ev l (if ls = [] then st else typing sc ls st) =
    (if opens sc (ls @ [l]) \<le> 0 then submit ev (typing sc (ls @ [l]) st)
     else ([], typing sc (ls @ [l]) st, Continue))"
proof (cases "ls = []")
  case True
  with assms typing_first [OF assms(1)] show ?thesis by (simp add: starts_expression_def)
next
  case False
  then show ?thesis using typing_more [OF False, of sc ev l st] by simp
qed

lemma repl_loop_append:
  assumes "repl_loop sc ev es st = (outs, st', Continue)"
  shows "repl_loop sc ev (es @ es') st =
    (case repl_loop sc ev es' st' of (outs', r) \<Rightarrow> (outs @ outs', r))"
  using assms
  by (induction es arbitrary: st outs) (auto split: prod.splits flow.splits)

lemma repl_loop_unfinished:
  assumes "idle st" and "starts_expression ls" and "unfinished sc ls"
  shows "repl_loop sc ev (map Line ls) st = ([], typing sc ls st, Continue)"
  using assms(2,3)
proof (induction ls rule: rev_induct)
  case (snoc l ls)
  have now: "0 < opens sc (ls @ [l])" using snoc.prems(2) by (intro unfinished_opens) auto
  have before: "repl_loop sc ev (map Line ls) st = ([], if ls = [] then st else typing sc ls st, Continue)"
  proof (cases "ls = []")
    case False
    with snoc.prems have "starts_expression ls" "unfinished sc ls"
      by (auto simp: starts_expression_def intro: unfinished_prefix)
    with snoc.IH False show ?thesis by simp
  qed simp
  show ?case
    using repl_loop_append [OF before, of "[Line l]"] repl_line_typing [OF assms(1) snoc.prems(1), of sc ev] now
    by (simp add: repl_step_def)
qed (simp add: starts_expression_def)

section \<open>Submission\<close>

text \<open>
  C22.  Lines typed at an idle prompt are submitted as one source exactly when the parentheses,
  counted outside comments, balance for the first time: the source is the lines joined and
  trimmed, it is evaluated once, its outcome is shown after what it printed, the first line is
  what the history remembers, and the prompt is idle again.
\<close>

theorem repl_submits_expression:
  assumes "idle st" and "starts_expression (ls @ [l])" and "unfinished sc ls"
    and "opens sc (ls @ [l]) \<le> 0" and "trim (joined (ls @ [l])) \<noteq> []"
    and "ev (trim (joined (ls @ [l]))) (backend st) = (outs, Some outcome, s')"
  shows "repl_loop sc ev (map Line (ls @ [l])) st =
    (outs @ show_outcome outcome,
     st\<lparr>history := history st @ remembered (ls @ [l]), backend := s'\<rparr>, Continue)"
proof -
  have before: "repl_loop sc ev (map Line ls) st = ([], if ls = [] then st else typing sc ls st, Continue)"
  proof (cases "ls = []")
    case False
    with assms(2) have "starts_expression ls" by (simp add: starts_expression_def)
    with assms(1,3) False show ?thesis by (simp add: repl_loop_unfinished)
  qed simp
  have "submit ev (typing sc (ls @ [l]) st) =
      (outs @ show_outcome outcome,
       st\<lparr>history := history st @ remembered (ls @ [l]), backend := s'\<rparr>, Continue)"
    using assms(1,5,6) by (simp add: submit_def typing_def Let_def idle_def)
  then show ?thesis
    using repl_loop_append [OF before, of "[Line l]"] repl_line_typing [OF assms(1,2), of sc ev] assms(4)
    by (simp add: repl_step_def)
qed

text \<open>
  Ctrl-C in the middle of an expression discards it: whatever was typed since the prompt was
  idle, the session goes on as if it had not been, but for the history; nothing was evaluated.
\<close>

lemma repl_interrupt_discards:
  assumes "idle st" and "starts_expression ls" and "unfinished sc ls"
  shows "repl_loop sc ev (map Line ls @ Interrupted # es) st =
    (case repl_loop sc ev es (st\<lparr>history := history st @ remembered ls\<rparr>) of
       (outs, r) \<Rightarrow> (eprintln (lit ''^C'') # outs, r))"
proof -
  have "buffer (typing sc ls st) \<noteq> []" using assms(2) by (simp add: typing_def starts_expression_def)
  moreover have "(typing sc ls st)\<lparr>buffer := [], depth := 0\<rparr> = st\<lparr>history := history st @ remembered ls\<rparr>"
    using assms(1) by (simp add: typing_def idle_def)
  ultimately show ?thesis
    using repl_loop_append [OF repl_loop_unfinished [OF assms], of ev "Interrupted # es"]
    by (simp add: repl_step_def split: prod.splits)
qed

text \<open>A backend for the examples: it echoes the source and counts the evaluations.\<close>

definition echo_eval :: "nat repl_eval" where
  "echo_eval source n = ([], Some (Ok (Some source)), n + 1)"

lemma idle_repl_start [simp]: "idle (repl_start loaded s)"
  by (simp add: idle_def repl_start_def)

lemma sample_expression: "starts_expression [lit ''(f'', lit ''1)'']" "starts_expression [lit ''(f'']"
  by (simp_all add: starts_expression_def is_quit_line_def is_note_line_def trim_def trim_start_def
      trim_end_def is_whitespace_def starts_with_def)

lemma sample_unfinished: "unfinished id [lit ''(f'']"
  by (auto simp: unfinished_def balance_def le_Suc_eq)

lemma sample_trimmed: "trim (joined [lit ''(f'', lit ''1)'']) = lit ''(f'' @ newline # lit ''1)''"
  by (simp add: trim_def trim_start_def trim_end_def is_whitespace_def newline_def)

theorem repl_submits_expression_witness:
  "fst (repl_loop id echo_eval (map Line [lit ''(f'', lit ''1)'']) (repl_start [] 0))
     = [println (lit ''(f'' @ newline # lit ''1)'')]"
proof -
  have "repl_loop id echo_eval (map Line ([lit ''(f''] @ [lit ''1)''])) (repl_start [] 0) =
      ([] @ show_outcome (Ok (Some (lit ''(f'' @ newline # lit ''1)''))),
       (repl_start [] 0)\<lparr>history := history (repl_start [] 0 :: nat repl) @ remembered ([lit ''(f''] @ [lit ''1)'']),
         backend := 1\<rparr>, Continue)"
  proof (rule repl_submits_expression)
    show "idle (repl_start [] 0)" by simp
    show "starts_expression ([lit ''(f''] @ [lit ''1)''])" using sample_expression(1) by simp
    show "unfinished id [lit ''(f'']" by (rule sample_unfinished)
    show "opens id ([lit ''(f''] @ [lit ''1)'']) \<le> 0" by (simp add: balance_def)
    show "trim (joined ([lit ''(f''] @ [lit ''1)''])) \<noteq> []" using sample_trimmed by simp
    show "echo_eval (trim (joined ([lit ''(f''] @ [lit ''1)'']))) (backend (repl_start [] 0)) =
        ([], Some (Ok (Some (lit ''(f'' @ newline # lit ''1)''))), 1)"
      using sample_trimmed by (simp add: echo_eval_def repl_start_def)
  qed
  then show ?thesis by simp
qed

section \<open>The depth counter\<close>

definition repl_inv :: "'s repl \<Rightarrow> bool" where
  "repl_inv st \<longleftrightarrow> (if buffer st = [] then depth st = 0 else 0 < depth st \<and> depth st \<le> int (length (buffer st)))"

definition repl_next :: "(rstr \<Rightarrow> rstr) \<Rightarrow> 's repl_eval \<Rightarrow> 's repl \<Rightarrow> 's repl \<Rightarrow> bool" where
  "repl_next sc ev st st' \<longleftrightarrow> (\<forall>l. length (sc l) \<le> length l) \<and> (\<exists>e outs fl. repl_step sc ev e st = (outs, st', fl))"

lemma submit_idle: "submit ev st = (outs, st', fl) \<Longrightarrow> idle st'"
  by (auto simp: submit_def idle_def Let_def split: if_splits prod.splits option.splits)

lemma idle_repl_inv: "idle st \<Longrightarrow> repl_inv st"
  by (simp add: idle_def repl_inv_def)

lemma repl_line_inv:
  assumes "repl_line sc ev l st = (outs, st', fl)" and "repl_inv st" and "\<And>l. length (sc l) \<le> length l"
  shows "repl_inv st'"
proof -
  let ?st1 = "if buffer st = [] \<and> trim l \<noteq> [] then st\<lparr>history := history st @ [l]\<rparr> else st"
  let ?st2 = "?st1\<lparr>depth := paren_depth (depth ?st1) (sc l), buffer := buffer ?st1 @ l @ [newline]\<rparr>"
  from assms(1) consider "st' = ?st1" | "submit ev ?st2 = (outs, st', fl)" | "st' = ?st2" "0 < depth ?st2"
    by (auto simp: repl_line_def Let_def split: if_splits)
  then show ?thesis
  proof cases
    case 1
    with assms(2) show ?thesis by (simp add: repl_inv_def)
  next
    case 2
    then show ?thesis by (intro idle_repl_inv submit_idle)
  next
    case 3
    have "depth st \<le> int (length (buffer st))"
      using assms(2) by (simp add: repl_inv_def split: if_splits)
    moreover have "balance (sc l) \<le> int (length l)"
      using balance_le_length [of "sc l"] assms(3) [of l] by simp
    moreover have "buffer ?st1 = buffer st" "depth ?st1 = depth st" by simp_all
    ultimately show ?thesis using 3 by (auto simp: repl_inv_def paren_depth_balance simp del: if_split)
  qed
qed

interpretation repl_machine: inductive_invariant
  "\<lambda>st. \<exists>loaded s. st = repl_start loaded s" "repl_next sc ev" repl_inv
  for sc :: "rstr \<Rightarrow> rstr" and ev :: "'s repl_eval"
proof
  show "\<exists>loaded s. st = repl_start loaded s \<Longrightarrow> repl_inv st" for st :: "'s repl"
    by (auto intro: idle_repl_inv)
  show "repl_inv st'" if nxt: "repl_next sc ev st st'" and inv: "repl_inv st" for st st' :: "'s repl"
  proof -
    obtain e outs fl where e: "repl_step sc ev e st = (outs, st', fl)" and sc: "\<And>l. length (sc l) \<le> length l"
      using nxt by (auto simp: repl_next_def)
    show ?thesis
    proof (cases e)
      case (Line l)
      with e have "repl_line sc ev l st = (outs, st', fl)" by (simp add: repl_step_def)
      then show ?thesis by (rule repl_line_inv [OF _ inv sc])
    next
      case Interrupted
      with e inv show ?thesis by (auto simp: repl_step_def repl_inv_def split: if_splits)
    qed (use e inv in \<open>auto simp: repl_step_def\<close>)
  qed
qed

lemma repl_loop_steps:
  assumes "\<And>l. length (sc l) \<le> length l" and "repl_loop sc ev es st = (outs, st', fl)"
  shows "(repl_next sc ev)\<^sup>*\<^sup>* st st'"
  using assms(2)
proof (induction es arbitrary: st outs)
  case (Cons e es)
  obtain o1 st1 f1 where e: "repl_step sc ev e st = (o1, st1, f1)" by (metis prod_cases3)
  with assms(1) have "repl_next sc ev st st1" by (auto simp: repl_next_def)
  moreover have "(repl_next sc ev)\<^sup>*\<^sup>* st1 st'"
    using Cons.prems e Cons.IH [of st1] by (cases f1) (auto split: prod.splits)
  ultimately show ?case by simp
qed simp

text \<open>
  Whatever is typed, between two lines the depth is zero when nothing is buffered, and
  otherwise positive and at most the number of buffered characters, so the counter stays far from
  its 32-bit limit for any buffer of fewer than two to the 31 characters.
\<close>

lemma repl_depth_bounded:
  assumes "\<And>l. length (sc l) \<le> length l" and "repl_loop sc ev es (repl_start loaded s) = (outs, st, fl)"
  shows "if buffer st = [] then depth st = 0 else 0 < depth st \<and> depth st \<le> int (length (buffer st))"
proof -
  have "repl_inv st"
    using repl_machine.along [OF repl_loop_steps [OF assms]] by (simp add: idle_repl_inv)
  then show ?thesis by (simp add: repl_inv_def)
qed

text \<open>
  Once the editor is there, \<open>run_repl\<close> never fails: when it returns, it returns \<open>Ok\<close>, whatever the
  backend or the editor reported, and exactly then the history has been saved.
\<close>

lemma run_repl_never_fails:
  assumes "editor = Ok ()"
  shows "rep_result (run_repl sc ev path loaded editor es s) \<in> {None, Some (Ok ())} \<and>
    (rep_saved (run_repl sc ev (Some p) loaded editor es s) \<noteq> None \<longleftrightarrow>
       rep_result (run_repl sc ev (Some p) loaded editor es s) = Some (Ok ()))"
  using assms by (auto simp: run_repl_def split: prod.splits flow.splits)

section \<open>A parenthesis inside a string\<close>

text \<open>The complete expression of the source text \<open>(display "(")\<close>.\<close>

definition string_paren_line :: rstr where
  "string_paren_line = lit ''(display '' @ [34, 40, 34, 41]"

lemma balance_string_paren [simp]: "balance string_paren_line = 1"
  by (simp add: balance_def string_paren_line_def)

lemma opens_take_nonneg: "list_all (\<lambda>k. 0 \<le> balance (sc k)) ls \<Longrightarrow> 0 \<le> opens sc (take n ls)"
  by (induction ls arbitrary: n) (auto simp: take_Cons' add_nonneg_nonneg)

text \<open>
  C40.  Parentheses are counted inside string literals too: typed at an idle prompt, a complete
  expression with an opening parenthesis in a string is not submitted, and neither is anything
  after it until a line closes more than it opens; the backend never sees it.
\<close>

theorem repl_string_paren_not_submitted:
  assumes "idle st" and "sc string_paren_line = string_paren_line"
    and "list_all (\<lambda>k. 0 \<le> balance (sc k)) ls"
  shows "\<exists>st'. repl_loop sc ev (map Line (string_paren_line # ls)) st = ([], st', Continue) \<and>
    backend st' = backend st \<and> buffer st' = joined (string_paren_line # ls)"
proof -
  have "starts_expression (string_paren_line # ls)"
    by (simp add: starts_expression_def is_quit_line_def is_note_line_def trim_def trim_start_def
        trim_end_def is_whitespace_def starts_with_def string_paren_line_def)
  moreover have "unfinished sc (string_paren_line # ls)"
    unfolding unfinished_def
  proof (intro allI impI)
    fix k assume "0 < k \<and> k \<le> length (string_paren_line # ls)"
    then obtain m where "k = Suc m" by (cases k) auto
    then show "0 < opens sc (take k (string_paren_line # ls))"
      using opens_take_nonneg [OF assms(3), of m] assms(2) by simp
  qed
  ultimately show ?thesis
    using repl_loop_unfinished [OF assms(1), of "string_paren_line # ls" sc ev]
    by (auto simp: typing_def)
qed

theorem repl_string_paren_not_submitted_witness:
  "\<exists>st'. repl_loop id echo_eval [Line string_paren_line, Line (lit ''(f 1)'')] (repl_start [] 0) = ([], st', Continue) \<and>
    backend st' = 0"
proof -
  have "list_all (\<lambda>k. 0 \<le> balance (id k)) [lit ''(f 1)'']" by (simp add: balance_def)
  from repl_string_paren_not_submitted [OF idle_repl_start [of "[]" 0] _ this, of echo_eval]
  obtain st' where "repl_loop id echo_eval (map Line [string_paren_line, lit ''(f 1)'']) (repl_start [] 0) = ([], st', Continue)"
    and "backend st' = backend (repl_start [] 0 :: nat repl)"
    by (metis id_apply)
  then show ?thesis by (intro exI [of _ st']) (simp add: repl_start_def del: repl_loop.simps)
qed

section \<open>Backends that give the same session\<close>

text \<open>
  The contract of the trait, as the loop uses it: on related states, whenever the reference
  backend \<open>ref\<close> returns, the other one returns with the same outcome, output that looks the same,
  and related states.  \<open>look\<close> says what of the console output is compared.
\<close>

locale backend_contract =
  fixes ev :: "'s repl_eval"
    and ref :: "'t repl_eval"
    and R :: "'s \<Rightarrow> 't \<Rightarrow> bool"
    and look :: "console list \<Rightarrow> 'o list"
  assumes look_append: "look (xs @ ys) = look xs @ look ys"
    and same_outcome: "R s t \<Longrightarrow> ref source t = (outs', Some r, t') \<Longrightarrow>
      \<exists>outs s'. ev source s = (outs, Some r, s') \<and> look outs = look outs' \<and> R s' t'"
begin

definition same :: "'s repl \<Rightarrow> 't repl \<Rightarrow> bool" where
  "same st tt \<longleftrightarrow> buffer st = buffer tt \<and> depth st = depth tt \<and> history st = history tt \<and>
     R (backend st) (backend tt)"

lemma submit_same:
  assumes "same st tt" and "submit ref tt = (outs', tt', fl)" and "fl \<noteq> Blocked"
  shows "\<exists>outs st'. submit ev st = (outs, st', fl) \<and> look outs = look outs' \<and> same st' tt'"
proof (cases "trim (buffer tt) = []")
  case True
  with assms show ?thesis by (auto simp: submit_def same_def)
next
  case False
  obtain o1 r t' where ref: "ref (trim (buffer tt)) (backend tt) = (o1, r, t')" by (metis prod_cases3)
  with assms False obtain outcome where r: "r = Some outcome"
    by (cases r) (auto simp: submit_def Let_def)
  have "R (backend st) (backend tt)" using assms(1) by (simp add: same_def)
  from same_outcome [OF this ref [unfolded r]] obtain o2 s' where
    "ev (trim (buffer tt)) (backend st) = (o2, Some outcome, s')" "look o2 = look o1" "R s' t'" by blast
  with assms False ref r show ?thesis by (auto simp: submit_def Let_def same_def look_append)
qed

lemma line_same:
  assumes "same st tt" and "repl_line sc ref l tt = (outs', tt', fl)" and "fl \<noteq> Blocked"
  shows "\<exists>outs st'. repl_line sc ev l st = (outs, st', fl) \<and> look outs = look outs' \<and> same st' tt'"
proof -
  have "same ((if buffer tt = [] \<and> trim l \<noteq> [] then st\<lparr>history := history st @ [l]\<rparr> else st)
      \<lparr>depth := paren_depth (depth tt) (sc l), buffer := buffer tt @ l @ [newline]\<rparr>)
     ((if buffer tt = [] \<and> trim l \<noteq> [] then tt\<lparr>history := history tt @ [l]\<rparr> else tt)
      \<lparr>depth := paren_depth (depth tt) (sc l), buffer := buffer tt @ l @ [newline]\<rparr>)"
    using assms(1) by (simp add: same_def)
  from submit_same [OF this _ assms(3)] show ?thesis
    using assms(1,2) by (auto simp: repl_line_def Let_def same_def split: if_splits)
qed

lemma step_same:
  assumes "same st tt" and "repl_step sc ref e tt = (outs', tt', fl)" and "fl \<noteq> Blocked"
  shows "\<exists>outs st'. repl_step sc ev e st = (outs, st', fl) \<and> look outs = look outs' \<and> same st' tt'"
proof (cases e)
  case (Line l)
  with assms line_same [OF assms(1) _ assms(3), of sc l] show ?thesis by (simp add: repl_step_def)
qed (use assms in \<open>auto simp: repl_step_def same_def split: if_splits\<close>)

lemma look_Nil [simp]: "look [] = []"
  using look_append [of "[]" "[]"] by simp

lemma loop_same:
  assumes "same st tt" and "repl_loop sc ref es tt = (outs', tt', fl)" and "fl \<noteq> Blocked"
  shows "\<exists>outs st'. repl_loop sc ev es st = (outs, st', fl) \<and> look outs = look outs' \<and> same st' tt'"
  using assms(1,2)
proof (induction es arbitrary: st tt outs')
  case Nil
  with assms(3) show ?case by auto
next
  case (Cons e es)
  obtain o1 t1 f1 where e: "repl_step sc ref e tt = (o1, t1, f1)" by (metis prod_cases3)
  with Cons.prems(2) assms(3) have "f1 \<noteq> Blocked" by (auto split: prod.splits)
  from step_same [OF Cons.prems(1) e this] obtain o2 s1 where
    s1: "repl_step sc ev e st = (o2, s1, f1)" "look o2 = look o1" "same s1 t1" by blast
  show ?case
  proof (cases f1)
    case Continue
    obtain o3 where o3: "repl_loop sc ref es t1 = (o3, tt', fl)" "outs' = o1 @ o3"
      using Cons.prems(2) e Continue by (auto split: prod.splits)
    from Cons.IH [OF s1(3) o3(1)] s1 Continue o3(2) show ?thesis
      by (fastforce simp: look_append)
  qed (use Cons.prems(2) e s1 \<open>f1 \<noteq> Blocked\<close> in auto)
qed

end

end
