(* ===== verification/Zs_Frontend.thy ===== *)
theory Zs_Frontend
  imports Zs_Client Zs_Serve Zs_Typing
begin

text \<open>
  What the frontend promises: which responses an evaluation takes as its own, where the prompt is
  left, how often it connects and spawns, what the handshake accepts, and that an evaluation
  through the daemon is, for the user, the evaluation itself.
\<close>

section \<open>The responses of one evaluation\<close>

fun own_text :: "u64 \<Rightarrow> response \<Rightarrow> rstr list" where
  "own_text rid (Display i txt) = (if i = rid then [txt] else [])"
| "own_text rid r = []"

fun own_result :: "u64 \<Rightarrow> response \<Rightarrow> bool" where
  "own_result rid (EvalResult i out) \<longleftrightarrow> i = rid"
| "own_result rid r \<longleftrightarrow> False"

definition own_texts :: "u64 \<Rightarrow> response list \<Rightarrow> rstr list" where
  "own_texts rid rs = concat (map (own_text rid) rs)"

lemma own_texts_simps [simp]:
  "own_texts rid [] = []" "own_texts rid (r # rs) = own_text rid r @ own_texts rid rs"
  "own_texts rid (rs @ qs) = own_texts rid rs @ own_texts rid qs"
  by (simp_all add: own_texts_def)

lemma await_result_other:
  assumes "read_frame dec s = FrameGot r s'" and "\<not> own_result rid r"
  shows "await_result dec rid s dang =
    (case await_result dec rid s' (foldl dangles dang (own_text rid r)) of
       (outs, x) \<Rightarrow> (map StdOut (own_text rid r) @ outs, x))"
  using assms by (cases r) (simp_all add: await_result.simps [of dec rid s] split: prod.splits)

lemma await_result_frames:
  assumes "list_all (frame_ok enc dec) (ds @ [EvalResult rid out])"
    and "list_all (\<lambda>r. \<not> own_result rid r) ds"
    and "incoming s = concat (map (frame_bytes enc) (ds @ [EvalResult rid out])) @ rest"
  shows "await_result dec rid s dang =
    (map StdOut (own_texts rid ds), s\<lparr>incoming := rest\<rparr>, foldl dangles dang (own_texts rid ds),
     Returned (Ok out))"
  using assms
proof (induction ds arbitrary: s dang)
  case Nil
  then have "read_frame dec s = FrameGot (EvalResult rid out) (s\<lparr>incoming := rest\<rparr>)"
    by (intro read_frame_written [where into_writer = enc]) simp_all
  then show ?case by (simp add: await_result.simps)
next
  case (Cons r ds)
  let ?s' = "s\<lparr>incoming := concat (map (frame_bytes enc) (ds @ [EvalResult rid out])) @ rest\<rparr>"
  have got: "read_frame dec s = FrameGot r ?s'"
    using Cons.prems by (intro read_frame_written [where into_writer = enc]) simp_all
  have "await_result dec rid ?s' (foldl dangles dang (own_text rid r)) =
      (map StdOut (own_texts rid ds), ?s'\<lparr>incoming := rest\<rparr>,
       foldl dangles (foldl dangles dang (own_text rid r)) (own_texts rid ds), Returned (Ok out))"
    using Cons.prems by (intro Cons.IH) simp_all
  then show ?case
    using await_result_other [OF got, of rid dang] Cons.prems(2) by simp
qed

lemma client_eval_frames:
  assumes "frame_ok req_enc req_dec (Eval (cl_next_id c) source (cl_isolated c))"
    and "list_all (frame_ok resp_enc resp_dec) (ds @ [EvalResult (cl_next_id c) out])"
    and "list_all (\<lambda>r. \<not> own_result (cl_next_id c) r) ds" and "room (cl_stream c) = None"
    and "incoming (cl_stream c) =
      concat (map (frame_bytes resp_enc) (ds @ [EvalResult (cl_next_id c) out])) @ rest"
  shows "client_eval req_enc resp_dec source c =
    (map StdOut (own_texts (cl_next_id c) ds), Returned (Ok out),
     c\<lparr>cl_next_id := cl_next_id c + 1,
       cl_dangling := foldl dangles False (own_texts (cl_next_id c) ds),
       cl_stream := (cl_stream c)\<lparr>incoming := rest,
         outgoing := outgoing (cl_stream c) @
           frame_bytes req_enc (Eval (cl_next_id c) source (cl_isolated c))\<rparr>\<rparr>)"
proof -
  let ?s = "(cl_stream c)\<lparr>outgoing := outgoing (cl_stream c) @
      frame_bytes req_enc (Eval (cl_next_id c) source (cl_isolated c))\<rparr>"
  have "await_result resp_dec (cl_next_id c) ?s False =
      (map StdOut (own_texts (cl_next_id c) ds), ?s\<lparr>incoming := rest\<rparr>,
       foldl dangles False (own_texts (cl_next_id c) ds), Returned (Ok out))"
    using assms(2,3,5) by (intro await_result_frames [where enc = resp_enc]) simp_all
  with write_frame_ok [OF assms(1,4)] show ?thesis
    by (cases c, cases "cl_stream c") (simp add: client_eval_def Let_def)
qed

text \<open>
  C23.  An evaluation sends one frame, numbered with the client's next id, and takes from the
  stream exactly the responses up to its own result: it prints its own display texts in order,
  passes over whatever else comes, returns that result, and leaves the rest unread.
\<close>

theorem client_eval_receives:
  assumes "frame_ok req_enc req_dec (Eval (cl_next_id c) source (cl_isolated c))"
    and "list_all (frame_ok resp_enc resp_dec) (ds @ [EvalResult (cl_next_id c) out])"
    and "list_all (\<lambda>r. \<not> own_result (cl_next_id c) r) ds" and "room (cl_stream c) = None"
    and "incoming (cl_stream c) =
      concat (map (frame_bytes resp_enc) (ds @ [EvalResult (cl_next_id c) out])) @ rest"
  shows "client_eval req_enc resp_dec source c =
    (map StdOut (own_texts (cl_next_id c) ds), Returned (Ok out),
     c\<lparr>cl_next_id := cl_next_id c + 1,
       cl_dangling := foldl dangles False (own_texts (cl_next_id c) ds),
       cl_stream := (cl_stream c)\<lparr>incoming := rest,
         outgoing := outgoing (cl_stream c) @
           frame_bytes req_enc (Eval (cl_next_id c) source (cl_isolated c))\<rparr>\<rparr>)"
  by (rule client_eval_frames [OF assms])

section \<open>The prompt\<close>

fun stdout_text :: "console \<Rightarrow> rstr" where
  "stdout_text (StdOut t) = t"
| "stdout_text (StdErr t) = []"

definition stdout_of_all :: "console list \<Rightarrow> rstr" where
  "stdout_of_all outs = concat (map stdout_text outs)"

lemma stdout_of_all_simps [simp]:
  "stdout_of_all [] = []" "stdout_of_all (x # xs) = stdout_text x @ stdout_of_all xs"
  "stdout_of_all (xs @ ys) = stdout_of_all xs @ stdout_of_all ys"
  by (simp_all add: stdout_of_all_def)

definition at_line_start :: "rstr \<Rightarrow> bool" where
  "at_line_start t \<longleftrightarrow> t = [] \<or> last t = newline"

text \<open>The dangling flag says that the printed text does not end a line.\<close>

lemma await_result_dangling:
  "await_result dec rid s dang = (outs, s', dang', r) \<Longrightarrow> \<forall>pre. dang = (\<not> at_line_start pre) \<longrightarrow>
     dang' = (\<not> at_line_start (pre @ stdout_of_all outs))"
proof (induction "length (incoming s)" arbitrary: s dang outs rule: less_induct)
  case less
  show ?case
  proof (cases "read_frame dec s")
    case (FrameGot m s1)
    show ?thesis
    proof (cases "own_result rid m")
      case True
      with less.prems FrameGot show ?thesis
        by (cases m) (auto simp: await_result.simps [of dec rid s])
    next
      case False
      obtain outs1 x where rec: "await_result dec rid s1 (foldl dangles dang (own_text rid m)) = (outs1, x)"
        by (metis surj_pair)
      from less.prems rec await_result_other [OF FrameGot False, of dang]
      have outs: "outs = map StdOut (own_text rid m) @ outs1" and x: "x = (s', dang', r)" by auto
      note IH = less.hyps [OF read_frame_shrinks [OF FrameGot] rec [unfolded x]]
      show ?thesis
      proof (intro allI impI)
        fix pre assume pre: "dang = (\<not> at_line_start pre)"
        have "foldl dangles dang (own_text rid m) =
            (\<not> at_line_start (pre @ stdout_of_all (map StdOut (own_text rid m))))"
          using pre by (cases m) (auto simp: dangles_def at_line_start_def ends_with_char_def)
        with IH show "dang' = (\<not> at_line_start (pre @ stdout_of_all outs))" by (simp add: outs)
      qed
    qed
  qed (use less.prems in \<open>auto simp: await_result.simps [of dec rid s]\<close>)
qed

text \<open>
  C35.  The REPL's prompt always starts on its own line: whatever an evaluation through the daemon
  displays and however it ends, also on a broken connection, what it has printed on stdout when it
  returns is empty or ends with a newline, and no output is left dangling.
\<close>

theorem client_prompt_on_own_line:
  assumes "client_repl_eval eof_text enc dec source c = (outs, Some outcome, c')"
  shows "at_line_start (stdout_of_all outs) \<and> \<not> cl_dangling c'"
proof -
  obtain outs1 r c1 where e: "client_eval enc dec source c = (outs1, r, c1)" by (metis prod_cases3)
  have "cl_dangling c1 = (\<not> at_line_start (stdout_of_all outs1))"
  proof (cases "write_frame enc (Eval (cl_next_id c) source (cl_isolated c)) (cl_stream c)")
    case (Pair s w)
    show ?thesis
    proof (cases w)
      case (Inl x)
      with e Pair show ?thesis by (auto simp: client_eval_def Let_def at_line_start_def)
    next
      case (Inr x)
      obtain outs2 s2 d2 r2 where a: "await_result dec (cl_next_id c) s False = (outs2, s2, d2, r2)"
        by (metis prod_cases4)
      with e Pair Inr await_result_dangling [OF a] show ?thesis
        by (auto simp: client_eval_def Let_def at_line_start_def elim!: allE [of _ "[]"])
    qed
  qed
  with e assms show ?thesis
    by (cases r) (auto simp: client_repl_eval_def Let_def at_line_start_def println_def split: if_splits)
qed

text \<open>An exchange for the examples: one request, a display, a foreign response, the result.\<close>

definition sample_req_codec :: "(request \<times> bytes) list" where
  "sample_req_codec = [(Eval 7 (lit ''x'') False, [2])]"

definition sample_resp_codec :: "(response \<times> bytes) list" where
  "sample_resp_codec =
     [(Display 7 (lit ''x''), [2, 2]), (Pong, [1]), (EvalResult 7 (Ok (Some (lit ''x''))), [3])]"

definition sample_answer :: "response list" where
  "sample_answer = [Display 7 (lit ''x''), Pong]"

definition sample_client :: client where
  "sample_client =
     \<lparr>cl_stream = \<lparr>incoming = concat (map (frame_bytes (table_enc sample_resp_codec))
          (sample_answer @ [EvalResult 7 (Ok (Some (lit ''x'')))])) @ [0, 0], ending = StillOpen,
        outgoing = [], room = None\<rparr>,
      cl_next_id = 7, cl_isolated = False, cl_dangling = False\<rparr>"

lemma sample_client_eval:
  "client_eval (table_enc sample_req_codec) (table_dec sample_resp_codec) (lit ''x'') sample_client =
    ([StdOut (lit ''x'')], Returned (Ok (Ok (Some (lit ''x'')))),
     sample_client\<lparr>cl_next_id := 8, cl_dangling := True,
       cl_stream := (cl_stream sample_client)\<lparr>incoming := [0, 0], outgoing := [0, 0, 0, 1, 2]\<rparr>\<rparr>)"
  (is "?lhs = ?rhs")
proof -
  have result: "await_result (table_dec sample_resp_codec) 7
      ((cl_stream sample_client)\<lparr>outgoing := [0, 0, 0, 1, 2]\<rparr>) False =
      (map StdOut (own_texts 7 sample_answer),
       (cl_stream sample_client)\<lparr>incoming := [0, 0], outgoing := [0, 0, 0, 1, 2]\<rparr>,
       foldl dangles False (own_texts 7 sample_answer), Returned (Ok (Ok (Some (lit ''x'')))))"
    by (subst await_result_frames [where enc = "table_enc sample_resp_codec" and ds = sample_answer
          and out = "Ok (Some (lit ''x''))" and rest = "[0, 0]"])
      (simp_all add: frame_ok_def table_enc_def table_dec_def sample_resp_codec_def sample_answer_def
        sample_client_def)
  have sent: "write_frame (table_enc sample_req_codec) (Eval 7 (lit ''x'') False) (cl_stream sample_client) =
      ((cl_stream sample_client)\<lparr>outgoing := [0, 0, 0, 1, 2]\<rparr>, Ok ())"
    by (simp add: write_frame_def write_all_def table_enc_def sample_req_codec_def sample_client_def
        to_be_bytes_def)
  show ?thesis
    using result sent
    by (simp add: client_eval_def Let_def sample_client_def sample_answer_def dangles_def ends_with_char_def
        newline_def)
qed

theorem client_eval_receives_witness:
  "fst (client_eval (table_enc sample_req_codec) (table_dec sample_resp_codec) (lit ''x'') sample_client)
     = [StdOut (lit ''x'')]"
proof -
  have "client_eval (table_enc sample_req_codec) (table_dec sample_resp_codec) (lit ''x'') sample_client =
    (map StdOut (own_texts (cl_next_id sample_client) sample_answer),
     Returned (Ok (Ok (Some (lit ''x'')))),
     sample_client\<lparr>cl_next_id := cl_next_id sample_client + 1,
       cl_dangling := foldl dangles False (own_texts (cl_next_id sample_client) sample_answer),
       cl_stream := (cl_stream sample_client)\<lparr>incoming := [0, 0],
         outgoing := outgoing (cl_stream sample_client) @ frame_bytes (table_enc sample_req_codec)
           (Eval (cl_next_id sample_client) (lit ''x'') (cl_isolated sample_client))\<rparr>\<rparr>)"
    by (rule client_eval_receives [where resp_enc = "table_enc sample_resp_codec"
          and req_dec = "table_dec sample_req_codec"])
      (simp_all add: frame_ok_def table_enc_def table_dec_def sample_resp_codec_def sample_req_codec_def
        sample_answer_def sample_client_def)
  then show ?thesis by (simp add: sample_answer_def sample_client_def)
qed

theorem client_prompt_on_own_line_witness:
  "at_line_start (stdout_of_all (fst (client_repl_eval [] (table_enc sample_req_codec)
     (table_dec sample_resp_codec) (lit ''x'') sample_client)))"
proof -
  obtain outs r c' where e: "client_repl_eval [] (table_enc sample_req_codec) (table_dec sample_resp_codec)
      (lit ''x'') sample_client = (outs, r, c')" by (metis prod_cases3)
  with sample_client_eval obtain outcome where "r = Some outcome"
    by (auto simp: client_repl_eval_def Let_def split: if_splits)
  with e have "client_repl_eval [] (table_enc sample_req_codec) (table_dec sample_resp_codec)
      (lit ''x'') sample_client = (outs, Some outcome, c')" by simp
  from client_prompt_on_own_line [OF this] e show ?thesis by simp
qed

section \<open>Connecting and the handshake\<close>

fun slept :: "connect_effect list \<Rightarrow> nat" where
  "slept [] = 0"
| "slept (Slept ms # es) = ms + slept es"
| "slept (e # es) = slept es"

lemma slept_append [simp]: "slept (xs @ ys) = slept xs + slept ys"
  by (induction xs rule: slept.induct) simp_all

lemma ex_less_Suc_split: "(\<exists>j<Suc n. P j) \<longleftrightarrow> P 0 \<or> (\<exists>j<n. P (Suc j))"
  by (auto simp: less_Suc_eq_0_disj)

lemma all_less_Suc_split: "(\<forall>j<Suc n. P j) \<longleftrightarrow> P 0 \<and> (\<forall>j<n. P (Suc j))"
  by (auto simp: less_Suc_eq_0_disj)

lemma retry_connect_fst:
  "fst (retry_connect attempt k (Suc n)) =
     (case attempt k of Ok s \<Rightarrow> Some s | Err e \<Rightarrow> fst (retry_connect attempt (Suc k) n))"
  by (auto split: sum.splits prod.splits)

lemma retry_connect_Some:
  "fst (retry_connect attempt k n) = Some s \<longleftrightarrow>
     (\<exists>j<n. attempt (k + j) = Ok s \<and> (\<forall>i<j. \<not> is_ok (attempt (k + i))))"
proof (induction n arbitrary: k)
  case (Suc n)
  show ?case
    unfolding retry_connect_fst ex_less_Suc_split all_less_Suc_split
    using Suc.IH [of "Suc k"] by (cases "attempt k") simp_all
qed simp

lemma slept_retry: "slept (snd (retry_connect attempt k n)) \<le> n * spawn_retry_delay"
proof (induction n arbitrary: k)
  case (Suc n)
  show ?case
    using Suc.IH [of "Suc k"] by (cases "attempt k") (auto split: prod.splits)
qed simp

lemma no_spawn_in_retry: "DaemonSpawned \<notin> set (snd (retry_connect attempt k n))"
  by (induction n arbitrary: k) (auto split: sum.splits prod.splits, metis snd_conv)

text \<open>
  C36.  Connecting ends after at most 41 attempts and ten seconds of waiting, with the first
  attempt that succeeds; a daemon is spawned only after the first attempt failed, and only once.
\<close>

theorem open_stream_bounded:
  "(case open_stream attempt spawned log_path of
     (r, effs) \<Rightarrow> slept effs \<le> 10000 \<and>
       count_list effs DaemonSpawned = (if is_ok (attempt 0) \<or> \<not> is_ok spawned then 0 else 1) \<and>
       (\<forall>s. r = Ok s \<longleftrightarrow>
          attempt 0 = Ok s \<or>
          is_ok spawned \<and> (\<exists>j\<le>40. attempt j = Ok s \<and> (\<forall>i<j. \<not> is_ok (attempt i)))))"
proof (cases "attempt 0")
  case (Inr s)
  then have ok: "is_ok (attempt 0)" by simp
  have "(attempt 0 = Ok s' \<or>
      is_ok spawned \<and> (\<exists>j\<le>40. attempt j = Ok s' \<and> (\<forall>i<j. \<not> is_ok (attempt i)))) \<longleftrightarrow> s = s'" for s'
  proof
    assume "attempt 0 = Ok s' \<or>
      is_ok spawned \<and> (\<exists>j\<le>40. attempt j = Ok s' \<and> (\<forall>i<j. \<not> is_ok (attempt i)))"
    then have "attempt 0 = Ok s'" using ok by (metis gr0I)
    with Inr show "s = s'" by simp
  qed (simp add: Inr)
  with ok Inr show ?thesis by (simp only: open_stream_def) simp
next
  case (Inl e)
  show ?thesis
  proof (cases spawned)
    case (Inl e')
    with \<open>attempt 0 = Err e\<close> show ?thesis by (simp add: open_stream_def)
  next
    case (Inr cmd)
    obtain r effs where rec: "retry_connect attempt 1 40 = (r, effs)" by fastforce
    have "slept effs \<le> 10000" using slept_retry [of attempt 1 40] rec by (simp add: spawn_retry_delay_def)
    moreover have "count_list effs DaemonSpawned = 0"
      using no_spawn_in_retry [of attempt 1 40] rec by (simp add: count_list_0_iff)
    moreover have "r = Some s \<longleftrightarrow> (\<exists>j\<le>40. attempt j = Ok s \<and> (\<forall>i<j. \<not> is_ok (attempt i)))" for s
    proof -
      have "r = Some s \<longleftrightarrow> (\<exists>j<40. attempt (Suc j) = Ok s \<and> (\<forall>i<j. \<not> is_ok (attempt (Suc i))))"
        using retry_connect_Some [of attempt 1 40 s] rec by simp
      also have "\<dots> \<longleftrightarrow> (\<exists>j<Suc 40. attempt j = Ok s \<and> (\<forall>i<j. \<not> is_ok (attempt i)))"
        unfolding ex_less_Suc_split all_less_Suc_split using Inl by simp
      finally show ?thesis by (simp only: less_Suc_eq_le)
    qed
    ultimately show ?thesis
      using \<open>attempt 0 = Err e\<close> Inr rec
      by (simp add: open_stream_def spawn_retries_def ok_or_Ok_iff)
  qed
qed

text \<open>A daemon that accepts connections at the third retry.\<close>

definition sample_attempts :: "nat \<Rightarrow> (rstr, nat) result" where
  "sample_attempts k = (if k < 3 then Err [] else Ok k)"

definition sample_spawned :: "(rstr, daemon_command) result" where
  "sample_spawned = Ok \<lparr>dc_exe = [], dc_args = [], dc_stdin_null = True, dc_log = [], dc_process_group = None\<rparr>"

theorem open_stream_bounded_witness:
  "fst (open_stream sample_attempts sample_spawned (Err [])) = Ok 3"
proof -
  obtain r effs where o: "open_stream sample_attempts sample_spawned (Err []) = (r, effs)" by fastforce
  with open_stream_bounded [of sample_attempts sample_spawned "Err []"] have
    "r = Ok 3 \<longleftrightarrow> sample_attempts 0 = Ok 3 \<or> is_ok sample_spawned \<and> (\<exists>j\<le>40. sample_attempts j = Ok 3 \<and> (\<forall>i<j. \<not> is_ok (sample_attempts i)))"
    by (simp only: prod.case)
  moreover have "is_ok sample_spawned \<and> (\<exists>j\<le>40. sample_attempts j = Ok 3 \<and> (\<forall>i<j. \<not> is_ok (sample_attempts i)))"
    by (intro conjI exI [of _ 3]) (simp_all add: sample_attempts_def sample_spawned_def)
  ultimately have "r = Ok 3" by (simp only: simp_thms)
  with o show ?thesis by (simp only: fst_conv)
qed

text \<open>
  The handshake succeeds exactly when the daemon's first frame acknowledges with the
  client's own version, whatever identity it announces.
\<close>

lemma hello_succeeds_iff:
  "fst (hello enc dec debug c) = Returned (Ok ()) \<longleftrightarrow>
     (\<exists>s s' d. write_frame enc (Hello pkg_version) (cl_stream c) = (s, Ok ()) \<and>
        read_frame dec s = FrameGot (HelloAck pkg_version d) s')"
  unfolding hello_def
  by (auto split: prod.splits sum.splits read_outcome.splits response.splits)

end
