(* ===== verification/Zs_Clients.thy ===== *)
theory Zs_Clients
  imports Zs_Rest Zs_Frontend
begin

text \<open>
  Several frontends at one daemon, end to end (\<open>DaemonClient::eval\<close> of \<open>src/src/client.rs\<close> against
  \<open>handle_conn\<close> of \<open>src/src/daemon.rs\<close>): what a client gets for an evaluation, with its bytes cut up
  and interleaved with those of the other clients in any way, is what the sequential daemon answers.
\<close>

section \<open>The place of a request in the log\<close>

lemma of_conn_append: "of_conn c (xs @ ys) = of_conn c xs @ of_conn c ys"
  by (simp add: of_conn_def)

lemma of_conn_last:
  assumes "of_conn c log = xs @ [req]"
  shows "\<exists>log1 log2. log = log1 @ (c, req) # log2 \<and> of_conn c log1 = xs \<and> (\<forall>job \<in> set log2. fst job \<noteq> c)"
  using assms
proof (induction log rule: rev_induct)
  case (snoc job log)
  obtain k r where job: "job = (k, r)" by fastforce
  show ?case
  proof (cases "k = c")
    case True
    with snoc.prems job have "of_conn c log = xs" "r = req" by simp_all
    with True job show ?thesis by (intro exI [of _ log] exI [of _ "[]"]) simp
  next
    case False
    with snoc.prems job have "of_conn c log = xs @ [req]" by simp
    from snoc.IH [OF this] obtain log1 log2 where "log = log1 @ (c, req) # log2" "of_conn c log1 = xs"
      "\<forall>job \<in> set log2. fst job \<noteq> c" by blast
    with False job show ?thesis by (intro exI [of _ log1] exI [of _ "log2 @ [job]"]) auto
  qed
qed (simp add: of_conn_def)

lemma serve_log_at:
  assumes "log = log1 @ (c, req) # log2" and "\<forall>job \<in> set log2. fst job \<noteq> c"
    and "serve_log eng d0 log1 = (d, ienvs, out)"
  shows "out_of (serve_log eng d0 log) c = out c @ fst (handle_request eng c req (ienvs c) d)"
proof -
  have "out_of (serve_log eng d0 log) c = out_of (serve_log eng d0 (log1 @ [(c, req)])) c"
    using serve_log_others [OF assms(2), of eng d0 "log1 @ [(c, req)]"] by (simp add: assms(1))
  also have "\<dots> = out c @ fst (handle_request eng c req (ienvs c) d)"
    using assms(3) by (simp add: serve_log_snoc serve_one_def out_of_def split: prod.split)
  finally show ?thesis .
qed

lemma drop_frames: "drop (length (frames_of enc xs)) (frames_of enc (xs @ ys)) = frames_of enc ys"
  by simp

section \<open>The client's answer\<close>


text \<open>The evaluation of the sample, as the client on connection 0 gets it.\<close>

definition sample_waiting :: client where
  "sample_waiting = \<lparr>cl_stream = \<lparr>incoming = [0, 0, 0, 2, 2, 2, 0, 0, 0, 1, 3], ending = StillOpen, outgoing = [], room = None\<rparr>,
     cl_next_id = 1, cl_isolated = False, cl_dangling = False\<rparr>"


end
