(* ===== verification/Zs_Takeover.thy ===== *)
theory Zs_Takeover
  imports Zs_Frontend
begin

text \<open>
  The life of a daemon (\<open>run\<close> and \<open>claim_socket\<close> of \<open>src/src/daemon.rs\<close>) and of the commands that
  control it (\<open>stop\<close>, \<open>reset\<close> and \<open>save\<close> of \<open>src/src/client.rs\<close>): taking over the socket, shutting down.
\<close>

section \<open>Taking over\<close>

lemma wait_released_iff: "wait_released ex k n \<longleftrightarrow> (\<exists>j<n. \<not> ex (k + j))"
proof (induction n arbitrary: k)
  case (Suc n)
  show ?case unfolding ex_less_Suc_split using Suc.IH [of "Suc k"] by simp
qed simp

lemma wait_released_50: "wait_released ex 1 50 \<longleftrightarrow> (\<exists>k. 1 \<le> k \<and> k \<le> 50 \<and> \<not> ex k)"
proof
  assume "wait_released ex 1 50"
  then obtain j where "j < 50" "\<not> ex (1 + j)" by (auto simp only: wait_released_iff)
  then show "\<exists>k. 1 \<le> k \<and> k \<le> 50 \<and> \<not> ex k" by (intro exI [of _ "1 + j"]) simp
next
  assume "\<exists>k. 1 \<le> k \<and> k \<le> 50 \<and> \<not> ex k"
  then obtain k where "1 \<le> k" "k \<le> 50" "\<not> ex k" by blast
  then have "k - 1 < 50" "\<not> ex (1 + (k - 1))" by simp_all
  then show "wait_released ex 1 50" unfolding wait_released_iff by blast
qed

lemma claim_socket_asked:
  assumes "sock = Ok path" and "path_exists 0" and "connect 0 = Some s"
    and "frame_ok req_enc req_dec Stop" and "room s = None"
    and "list_all (frame_ok resp_enc resp_dec) (ms @ [Stopping])" and "list_all (\<lambda>m. \<not> is_stopping m) ms"
    and "incoming s = concat (map (frame_bytes resp_enc) (ms @ [Stopping])) @ rest"
  shows "claim_socket req_enc resp_dec sock path_exists connect remove_file =
    (if wait_released path_exists 1 50 then Claimed
     else if connect 1 \<noteq> None
     then ClaimRefused (lit ''running daemon did not release '' @ path @ lit '' '' @ em_dash # lit '' kill it manually'')
     else remove_stale remove_file path)"
proof -
  obtain s1 where sent: "write_frame req_enc Stop s = (s1, Ok ())" and inc: "incoming s1 = incoming s"
    using write_frame_ok [OF assms(4,5)] by simp
  have "read_until resp_dec is_stopping s1 = UntilFound Stopping (s1\<lparr>incoming := rest\<rparr>)"
    using assms(6-8) inc by (intro read_until_found [where into_writer = resp_enc and ms = ms]) (simp_all add: is_stopping_def)
  with assms(1-3) sent show ?thesis by (simp add: claim_socket_def)
qed

text \<open>
  C28.  Taking over is safe: the claim is granted only after the socket file was seen gone, or was
  removed while no daemon answered the last attempt to connect; and a running daemon that confirms
  the stop, whatever it sends before, and releases the file within fifty checks is taken over.
\<close>

theorem claim_socket_safe:
  "(claim_socket req_enc resp_dec sock path_exists connect remove_file = Claimed \<longrightarrow>
      (\<exists>k\<le>50. \<not> path_exists k)) \<and>
   (claim_socket req_enc resp_dec sock path_exists connect remove_file = ClaimedRemoving \<longrightarrow>
      remove_file = Ok () \<and> (connect 0 = None \<or> connect 1 = None)) \<and>
   (\<forall>path s ms rest k. sock = Ok path \<longrightarrow> path_exists 0 \<longrightarrow> connect 0 = Some s \<longrightarrow>
      frame_ok req_enc req_dec Stop \<longrightarrow> room s = None \<longrightarrow>
      list_all (frame_ok resp_enc resp_dec) (ms @ [Stopping]) \<longrightarrow> list_all (\<lambda>m. \<not> is_stopping m) ms \<longrightarrow>
      incoming s = concat (map (frame_bytes resp_enc) (ms @ [Stopping])) @ rest \<longrightarrow>
      1 \<le> k \<longrightarrow> k \<le> 50 \<longrightarrow> \<not> path_exists k \<longrightarrow>
      claim_socket req_enc resp_dec sock path_exists connect remove_file = Claimed)"
proof (intro conjI allI impI)
  assume "claim_socket req_enc resp_dec sock path_exists connect remove_file = Claimed"
  then have "\<not> path_exists 0 \<or> wait_released path_exists 1 50"
    by (auto simp: claim_socket_def remove_stale_def simp del: wait_released.simps
        split: sum.splits option.splits prod.splits until_outcome.splits if_splits)
  then show "\<exists>k\<le>50. \<not> path_exists k" unfolding wait_released_50 by blast
next
  assume "claim_socket req_enc resp_dec sock path_exists connect remove_file = ClaimedRemoving"
  then show "remove_file = Ok ()" "connect 0 = None \<or> connect 1 = None"
    by (auto simp: claim_socket_def remove_stale_def simp del: wait_released.simps
        split: sum.splits option.splits prod.splits until_outcome.splits if_splits)
next
  fix path s ms rest k
  assume a: "sock = Ok path" "path_exists 0" "connect 0 = Some s" "frame_ok req_enc req_dec Stop" "room s = None"
      "list_all (frame_ok resp_enc resp_dec) (ms @ [Stopping])" "list_all (\<lambda>m. \<not> is_stopping m) ms"
      "incoming s = concat (map (frame_bytes resp_enc) (ms @ [Stopping])) @ rest"
    and "1 \<le> k" "k \<le> 50" "\<not> path_exists k"
  then have "wait_released path_exists 1 50" unfolding wait_released_50 by blast
  with claim_socket_asked [of sock path path_exists connect s req_enc req_dec resp_enc resp_dec ms rest remove_file, OF a]
  show "claim_socket req_enc resp_dec sock path_exists connect remove_file = Claimed"
    by (simp del: wait_released.simps)
qed

section \<open>Shutting down\<close>

text \<open>
  A run that ends without error has removed its socket and, when it has an image, written
  the session's dump to it last; a run that ends with an error has done neither.
\<close>

lemma daemon_run_shutdown:
  assumes "daemon_run eng claim img bind_result evs serve d = (effs, Some r)"
  shows "case r of
      Ok _ \<Rightarrow> SocketRemoved \<in> set effs \<and>
        (if img = None then (\<forall>src. ImageWritten src \<notin> set effs)
         else \<exists>d1 p f effs1. img = Some (p, f) \<and> load_image eng f p d = Ok (d1, effs1) \<and>
           last effs = ImageWritten (eng_dump_env eng (d_env (serve d1))))
    | Err _ \<Rightarrow> SocketRemoved \<notin> set effs \<and> (\<forall>src. ImageWritten src \<notin> set effs)"
proof -
  have load: "\<And>x. x \<in> set effs1 \<Longrightarrow> \<exists>src. x = ImageEvaluated src"
    if "load_image eng f p d = Ok (d1, effs1)" for f p d1 effs1
    using that by (auto simp: load_image_def split: option.splits sum.splits prod.splits)
  show ?thesis
    using assms
    by (auto simp: daemon_run_def split: claim_outcome.splits option.splits sum.splits prod.splits
        loop_end.splits if_splits dest: load)
qed

text \<open>A socket whose daemon confirms the stop after a pending answer and is gone at the third check.\<close>

definition sample_stop_stream :: ipc_stream where
  "sample_stop_stream = \<lparr>incoming = [0, 0, 0, 1, 1, 0, 0, 0, 1, 4], ending = Closed, outgoing = [], room = None\<rparr>"

theorem claim_socket_safe_witness:
  "claim_socket (table_enc [(Stop, [3])]) (table_dec sample_resps) (Ok (lit ''s'')) (\<lambda>k. k < 3)
     (\<lambda>_. Some sample_stop_stream) (Err []) = Claimed"
proof -
  have "frame_ok (table_enc [(Stop, [3])]) (table_dec [(Stop, [3])]) Stop"
    by (simp add: frame_ok_def table_enc_def table_dec_def)
  moreover have "list_all (frame_ok (table_enc sample_resps) (table_dec sample_resps)) ([Pong] @ [Stopping])"
    by (simp add: frame_ok_def table_enc_def table_dec_def sample_resps_def)
  moreover have "incoming sample_stop_stream =
      concat (map (frame_bytes (table_enc sample_resps)) ([Pong] @ [Stopping])) @ []"
    by (simp add: sample_stop_stream_def frame_bytes_def table_enc_def sample_resps_def to_be_bytes_def)
  moreover have "list_all (\<lambda>m. \<not> is_stopping m) [Pong]" "room sample_stop_stream = None"
    by (simp_all add: is_stopping_def sample_stop_stream_def)
  moreover have "(0 :: nat) < 3" "1 \<le> (3 :: nat)" "(3 :: nat) \<le> 50" "\<not> 3 < (3 :: nat)" by simp_all
  ultimately show ?thesis
    using claim_socket_safe [of "table_enc [(Stop, [3])]" "table_dec sample_resps" "Ok (lit ''s'')" "\<lambda>k. k < 3"
        "\<lambda>_. Some sample_stop_stream" "Err []" "table_dec [(Stop, [3])]" "table_enc sample_resps"]
    by blast
qed

section \<open>The control commands\<close>


definition sample_control_resps :: "(response \<times> bytes) list" where
  "sample_control_resps = [(Stopping, [1]), (ResetDone, [2]), (EnvDump [7], [3])]"

definition sample_control_reqs :: "(request \<times> bytes) list" where
  "sample_control_reqs = [(Stop, [1]), (Reset, [2]), (DumpEnv, [3])]"

definition sample_control_stream :: "request \<Rightarrow> ipc_stream" where
  "sample_control_stream req =
     \<lparr>incoming = concat (map (frame_bytes (table_enc sample_control_resps))
        (fst (handle_request sample_engine 0 req None sample_daemon))), ending = Closed, outgoing = [], room = None\<rparr>"


end
