(* ===== verification/Zs_Life.thy ===== *)
theory Zs_Life
  imports Zs_Layers Zs_Takeover
begin

text \<open>
  The life of a daemon process (\<open>run\<close> of \<open>src/src/daemon.rs\<close>) with everything that happens in it
  interleaved: the loop that accepts connections and waits for a reason to stop, and the connections
  of \<open>Zs_Serial\<close>.  It implements \<open>daemon_run\<close>, in which what the connections do is a function, and
  that function is the sequential handling of the requests.
\<close>

section \<open>States and steps\<close>

text \<open>
  Connections are numbered in the order in which they are accepted.  Everything from the end of the
  loop to the result of \<open>run\<close> has no await, so it is one step; the connections go on after it, until
  the endpoint is closed and the process ends.  While an evaluation is under way, the environment
  that the dump sees is the evaluator's affair.  \<open>lf_saved\<close> is history: the requests handled when the
  loop ended, if no evaluation was under way then.
\<close>

record ('e, 'cfg, 'ib, 'l) life =
  lf_conc :: "('e, 'cfg, 'ib, 'l) conc"
  lf_accepted :: nat
  lf_events :: "server_event list"
  lf_effects :: "daemon_effect list"
  lf_result :: "(run_error, unit) result option"
  lf_saved :: "(nat \<times> request) list option"

fun breaks ::
  "platform \<Rightarrow> (rstr, unit) result \<Rightarrow> ('e, 'cfg, 'ib, 'l) daemon \<Rightarrow> server_event \<Rightarrow> bool" where
  "breaks plat install d StopNotified = d_stop d"
| "breaks plat install d CtrlC = True"
| "breaks plat install d (Terminated r) =
     (r = Ok () \<and> wait_for_terminate_signal plat install True = Some r)"
| "breaks plat install d ev = False"

definition shutdown_effects :: "('e, 'cfg, 'ib, 'l) engine \<Rightarrow> path option \<Rightarrow> 'e \<Rightarrow> daemon_effect list" where
  "shutdown_effects eng img e =
     SocketRemoved # (case img of None \<Rightarrow> [] | Some p \<Rightarrow> [ImageWritten (eng_dump_env eng e)])"

inductive life_step ::
  "('e, 'cfg, 'ib, 'l) engine \<Rightarrow> platform \<Rightarrow> (rstr, unit) result \<Rightarrow> path option \<Rightarrow>
     ('e, 'cfg, 'ib, 'l) life \<Rightarrow> ('e, 'cfg, 'ib, 'l) life \<Rightarrow> bool"
  for eng plat install img where
  life_accept: "lf_result s = None \<Longrightarrow>
    life_step eng plat install img s
      (s\<lparr>lf_accepted := Suc (lf_accepted s), lf_events := lf_events s @ [Accepted]\<rparr>)"
| life_accept_failed: "lf_result s = None \<Longrightarrow>
    life_step eng plat install img s (s\<lparr>lf_events := lf_events s @ [AcceptFailed e]\<rparr>)"
| life_serve: "conc_step eng (lf_conc s) t \<Longrightarrow>
    \<forall>c \<ge> lf_accepted s. cc_input t c = cc_input (lf_conc s) c \<Longrightarrow>
    life_step eng plat install img s (s\<lparr>lf_conc := t\<rparr>)"
| life_break: "lf_result s = None \<Longrightarrow> breaks plat install (cc_daemon (lf_conc s)) ev \<Longrightarrow>
    (cc_lock (lf_conc s) = None \<Longrightarrow> e = d_env (cc_daemon (lf_conc s))) \<Longrightarrow>
    life_step eng plat install img s
      (s\<lparr>lf_events := lf_events s @ [ev], lf_effects := lf_effects s @ shutdown_effects eng img e,
         lf_result := Some (Ok ()),
         lf_saved := (if cc_lock (lf_conc s) = None then Some (cc_log (lf_conc s)) else None)\<rparr>)"
| life_no_handler: "lf_result s = None \<Longrightarrow> wait_for_terminate_signal plat install False = Some (Err m) \<Longrightarrow>
    life_step eng plat install img s
      (s\<lparr>lf_events := lf_events s @ [Terminated (Err m)], lf_result := Some (Err (RunMsg m))\<rparr>)"

text \<open>The loop is entered with the session in state \<open>d1\<close>, the effects of the start-up behind it.\<close>

definition life_init ::
  "('e, 'cfg, 'ib, 'l) daemon \<Rightarrow> daemon_effect list \<Rightarrow> (nat \<Rightarrow> request list) \<Rightarrow>
     ('e, 'cfg, 'ib, 'l) life \<Rightarrow> bool" where
  "life_init d1 effs1 inputs s \<longleftrightarrow>
     conc_start d1 inputs (lf_conc s) \<and> lf_accepted s = 0 \<and> lf_events s = [] \<and>
     lf_effects s = effs1 @ [SocketBound, SocketPrivate] \<and> lf_result s = None \<and> lf_saved s = None"

section \<open>Invariants\<close>

lemma accept_loop_append:
  "accept_loop evs n = (m, LoopRunning) \<Longrightarrow> accept_loop (evs @ rest) n = accept_loop rest m"
  by (induction evs n rule: accept_loop.induct) simp_all

text \<open>The connections are those of the concurrent daemon, and only accepted ones have acted.\<close>

definition served_inv ::
  "('e, 'cfg, 'ib, 'l) engine \<Rightarrow> ('e, 'cfg, 'ib, 'l) daemon \<Rightarrow> (nat \<Rightarrow> request list) \<Rightarrow>
     ('e, 'cfg, 'ib, 'l) life \<Rightarrow> bool" where
  "served_inv eng d1 inputs s \<longleftrightarrow>
     reachable (conc_start d1 inputs) (conc_step eng) (lf_conc s) \<and>
     (\<forall>c \<ge> lf_accepted s. cc_input (lf_conc s) c = inputs c)"

text \<open>The loop's events, effects and result are those of the code's loop.\<close>

definition loop_inv ::
  "('e, 'cfg, 'ib, 'l) engine \<Rightarrow> path option \<Rightarrow> ('e, 'cfg, 'ib, 'l) daemon \<Rightarrow> daemon_effect list \<Rightarrow>
     ('e, 'cfg, 'ib, 'l) life \<Rightarrow> bool" where
  "loop_inv eng img d1 effs1 s \<longleftrightarrow>
     (case lf_result s of
        None \<Rightarrow> accept_loop (lf_events s) 0 = (lf_accepted s, LoopRunning) \<and>
          lf_effects s = effs1 @ [SocketBound, SocketPrivate] \<and> lf_saved s = None
      | Some (Err m) \<Rightarrow> (\<exists>msg. m = RunMsg msg \<and> accept_loop (lf_events s) 0 = (lf_accepted s, LoopError msg)) \<and>
          lf_effects s = effs1 @ [SocketBound, SocketPrivate] \<and> lf_saved s = None
      | Some (Ok _) \<Rightarrow> accept_loop (lf_events s) 0 = (lf_accepted s, LoopBroken) \<and>
          (\<exists>e. lf_effects s = effs1 @ [SocketBound, SocketPrivate] @ shutdown_effects eng img e \<and>
             (\<forall>log. lf_saved s = Some log \<longrightarrow>
                e = d_env (fst (serve_log eng d1 log)) \<and> prefix log (cc_log (lf_conc s)))))"

lemma conc_log_grows: "conc_step eng s t \<Longrightarrow> prefix (cc_log s) (cc_log t)"
  by (induction rule: conc_step.induct) auto

lemma life_served_step:
  "life_step eng plat install img s t \<Longrightarrow> served_inv eng d1 inputs s \<Longrightarrow> served_inv eng d1 inputs t"
  by (induction rule: life_step.induct) (auto simp: served_inv_def intro: reach_step)

lemma served_idle:
  assumes "served_inv eng d1 inputs s" and "cc_lock (lf_conc s) = None"
  shows "serve_log eng d1 (cc_log (lf_conc s)) =
    (cc_daemon (lf_conc s), cc_ienv (lf_conc s), cc_out (lf_conc s))"
  using assms conc_server.always [of d1 inputs eng "lf_conc s"]
  by (auto simp: served_inv_def run_inv_def serial_inv_def)

lemma breaks_loop: "breaks plat install d ev \<Longrightarrow> accept_loop [ev] n = (n, LoopBroken)"
  by (cases ev) auto

lemma life_loop_step:
  assumes "life_step eng plat install img s t" and "served_inv eng d1 inputs s" and "loop_inv eng img d1 effs1 s"
  shows "loop_inv eng img d1 effs1 t"
  using assms
proof (induction rule: life_step.induct)
  case (life_serve s t)
  have "prefix (cc_log (lf_conc s)) (cc_log t)" by (rule conc_log_grows [OF life_serve.hyps(1)])
  with life_serve.prems(2) show ?case
    by (auto simp: loop_inv_def split: option.splits sum.splits intro: prefix_order.trans)
next
  case (life_break s ev e)
  then have "accept_loop (lf_events s @ [ev]) 0 = (lf_accepted s, LoopBroken)"
    by (simp add: loop_inv_def accept_loop_append breaks_loop)
  moreover have "e = d_env (fst (serve_log eng d1 (cc_log (lf_conc s))))" if "cc_lock (lf_conc s) = None"
    using served_idle [OF life_break.prems(1) that] life_break.hyps(3) [OF that] by simp
  ultimately show ?case using life_break by (auto simp: loop_inv_def)
qed (auto simp: loop_inv_def accept_loop_append)

interpretation life: relative_invariant "life_init d1 effs1 inputs" "life_step eng plat install img"
  "served_inv eng d1 inputs" "loop_inv eng img d1 effs1"
  for eng :: "('e, 'cfg, 'ib, 'l) engine" and d1 effs1 inputs plat install img
proof
  fix s t :: "('e, 'cfg, 'ib, 'l) life"
  show "served_inv eng d1 inputs s" if "life_init d1 effs1 inputs s"
    using that by (auto simp: life_init_def served_inv_def conc_start_def conc_init_def intro!: reach_init)
  show "loop_inv eng img d1 effs1 s" if "life_init d1 effs1 inputs s"
    using that by (simp add: life_init_def loop_inv_def)
qed (fact life_served_step life_loop_step)+

section \<open>The process implements run\<close>

text \<open>The connections that have not been accepted have no requests in the log.\<close>

lemma unaccepted_silent:
  assumes "served_inv eng d1 inputs s" and "lf_accepted s \<le> c"
  shows "of_conn c (cc_log (lf_conc s)) = []"
proof -
  have "reachable (conc_init d1 inputs) (conc_step eng) (lf_conc s)"
    using assms(1) by (auto simp: served_inv_def conc_start_def intro: reachable_init_mono)
  from serial.both.always [OF this] have "order_inv inputs (lf_conc s)" by (simp add: conc_inv_def)
  from order_invD(1) [OF this, of c] assms show ?thesis by (simp add: served_inv_def)
qed

text \<open>
  The process implements \<open>run\<close>: its effects and its result are those of \<open>daemon_run\<close> on the events of
  its loop; the environment that the image is the dump of is that of the requests handled so far, one
  after the other; and only accepted connections have been served.
\<close>

lemma run_implemented:
  assumes loop: "loop_inv eng (map_option fst img) d1 effs1 s" and served: "served_inv eng d1 inputs s"
    and "(case img of None \<Rightarrow> Ok (d, []) | Some (p, content) \<Rightarrow> load_image eng content p d) = Ok (d1, effs1)"
    and "claim = Claimed \<or> claim = ClaimedRemoving"
  shows "(\<exists>e. daemon_run eng claim img (Ok ()) (lf_events s) (\<lambda>d. d\<lparr>d_env := e\<rparr>) d = (lf_effects s, lf_result s) \<and>
      (\<forall>log. lf_saved s = Some log \<longrightarrow>
         e = d_env (fst (serve_log eng d1 log)) \<and> prefix log (cc_log (lf_conc s)))) \<and>
    fst (accept_loop (lf_events s) 0) = lf_accepted s \<and>
    (\<forall>c \<ge> lf_accepted s. of_conn c (cc_log (lf_conc s)) = [])"
proof -
  have run: "daemon_run eng claim img (Ok ()) evs serve d =
      (case accept_loop evs 0 of
         (_, LoopRunning) \<Rightarrow> (effs1 @ [SocketBound, SocketPrivate], None)
       | (_, LoopError e) \<Rightarrow> (effs1 @ [SocketBound, SocketPrivate], Some (Err (RunMsg e)))
       | (_, LoopBroken) \<Rightarrow> (effs1 @ [SocketBound, SocketPrivate] @
           shutdown_effects eng (map_option fst img) (d_env (serve d1)), Some (Ok ())))" for evs serve
    using assms(3,4)
    by (auto simp: daemon_run_def shutdown_effects_def split: option.splits prod.splits loop_end.splits)
  have "\<exists>e. daemon_run eng claim img (Ok ()) (lf_events s) (\<lambda>d. d\<lparr>d_env := e\<rparr>) d = (lf_effects s, lf_result s) \<and>
      (\<forall>log. lf_saved s = Some log \<longrightarrow>
         e = d_env (fst (serve_log eng d1 log)) \<and> prefix log (cc_log (lf_conc s)))"
    using loop unfolding run loop_inv_def by (auto split: option.splits sum.splits)
  moreover have "fst (accept_loop (lf_events s) 0) = lf_accepted s"
    using loop unfolding loop_inv_def by (auto split: option.splits sum.splits)
  ultimately show ?thesis using unaccepted_silent [OF served] by blast
qed

section \<open>Restarting\<close>


text \<open>
  The sample: five connections are accepted, and the requests of \<open>sample_inputs\<close> handled; the
  process is interrupted before (\<open>life_late\<close>) or after them (\<open>life_done\<close>).
\<close>

definition life_at :: "(rstr list, unit, unit, unit) conc \<Rightarrow> (rstr list, unit, unit, unit) life" where
  "life_at c = \<lparr>lf_conc = c, lf_accepted = 5, lf_events = replicate 5 Accepted,
     lf_effects = [SocketBound, SocketPrivate], lf_result = None, lf_saved = None\<rparr>"

definition interrupted :: "(rstr list, unit, unit, unit) life \<Rightarrow> (rstr list, unit, unit, unit) life" where
  "interrupted s = s\<lparr>lf_events := lf_events s @ [CtrlC],
     lf_effects := lf_effects s @ shutdown_effects sample_engine (Some (lit ''i'')) (d_env (cc_daemon (lf_conc s))),
     lf_result := Some (Ok ()),
     lf_saved := (if cc_lock (lf_conc s) = None then Some (cc_log (lf_conc s)) else None)\<rparr>"

abbreviation sample_life_step ::
  "(rstr list, unit, unit, unit) life \<Rightarrow> (rstr list, unit, unit, unit) life \<Rightarrow> bool" where
  "sample_life_step \<equiv> life_step sample_engine Unix (Ok ()) (Some (lit ''i''))"

abbreviation sample_life :: "(rstr list, unit, unit, unit) life \<Rightarrow> bool" where
  "sample_life \<equiv> reachable (life_init sample_daemon [] sample_inputs) sample_life_step"

lemma life_accepts:
  assumes "lf_result s = None" and "reachable init (life_step eng plat install img) s"
  shows "reachable init (life_step eng plat install img)
    (s\<lparr>lf_accepted := lf_accepted s + n, lf_events := lf_events s @ replicate n Accepted\<rparr>)"
proof (induction n)
  case (Suc n)
  show ?case
    using reach_step [OF Suc life_accept] assms(1)
    by (simp add: replicate_append_same [symmetric] del: replicate_append_same)
qed (simp add: assms(2))

lemma life_at_0: "sample_life (life_at conc_0)"
proof -
  let ?s = "\<lparr>lf_conc = conc_0, lf_accepted = 0, lf_events = [],
     lf_effects = [SocketBound, SocketPrivate], lf_result = None, lf_saved = None\<rparr>"
  have "sample_life ?s" by (rule reach_init) (simp add: life_init_def conc_0_start)
  from life_accepts [OF _ this, of 5] show ?thesis by (simp add: life_at_def)
qed

lemma conc_inputs:
  "5 \<le> c \<Longrightarrow> cc_input conc_1 c = cc_input conc_0 c" "cc_input conc_2 = cc_input conc_1"
  "5 \<le> c \<Longrightarrow> cc_input conc_3 c = cc_input conc_2 c" "cc_input conc_4 = cc_input conc_3"
  "cc_input conc_5 = cc_input conc_4"
  by (simp_all add: conc_states)

lemma life_serves:
  assumes "sample_life s" and "lf_accepted s = 5" and "lf_conc s = conc_0"
  shows "sample_life (s\<lparr>lf_conc := conc_5\<rparr>)"
proof -
  have serve: "sample_life (s\<lparr>lf_conc := t\<rparr>)"
    if "sample_life (s\<lparr>lf_conc := u\<rparr>)" "conc_step sample_engine u t" "\<forall>c \<ge> 5. cc_input t c = cc_input u c" for t u
    using reach_step [OF that(1) life_serve [where t = t]] that(2,3) assms(2) by simp
  have "s\<lparr>lf_conc := conc_0\<rparr> = s" using assms(3) by (cases s) simp
  then have "sample_life (s\<lparr>lf_conc := conc_0\<rparr>)" using assms(1) by simp
  then show ?thesis using serve conc_states_step conc_inputs by metis
qed

lemma life_interrupts:
  assumes "sample_life s" and "lf_result s = None"
  shows "sample_life (interrupted s)"
  unfolding interrupted_def by (rule reach_step [OF assms(1) life_break [OF assms(2)]]) simp_all

definition life_done :: "(rstr list, unit, unit, unit) life" where
  "life_done = interrupted (life_at conc_5)"

definition life_late :: "(rstr list, unit, unit, unit) life" where
  "life_late = (interrupted (life_at conc_0))\<lparr>lf_conc := conc_5\<rparr>"

lemma sample_lives: "sample_life life_done" "sample_life life_late"
proof -
  have "sample_life ((life_at conc_0)\<lparr>lf_conc := conc_5\<rparr>)"
    by (rule life_serves [OF life_at_0]) (simp_all add: life_at_def)
  then show "sample_life life_done"
    unfolding life_done_def by (intro life_interrupts) (simp_all add: life_at_def)
  have "sample_life (interrupted (life_at conc_0))"
    by (rule life_interrupts [OF life_at_0]) (simp add: life_at_def)
  then show "sample_life life_late"
    unfolding life_late_def by (rule life_serves) (simp_all add: interrupted_def life_at_def)
qed

lemma life_done_ended:
  "lf_result life_done = Some (Ok ())" "lf_saved life_done = Some (cc_log conc_5)" "lf_conc life_done = conc_5"
  by (simp_all add: life_done_def interrupted_def life_at_def conc_5_def)

lemma sample_session: "d_env (fst (serve_log sample_engine sample_daemon (cc_log conc_5))) = [lit ''x'', [7]]"
proof -
  have "served_inv sample_engine sample_daemon sample_inputs life_done"
    using life.always [OF sample_lives(1)] .
  from served_idle [OF this] have "serve_log sample_engine sample_daemon (cc_log conc_5) =
      (cc_daemon conc_5, cc_ienv conc_5, cc_out conc_5)"
    by (simp add: life_done_ended conc_5_idle)
  then show ?thesis by (simp add: conc_5_def)
qed


text \<open>
  The image can miss evaluations whose answers were sent: between the end of \<open>run\<close> and the end
  of the process the endpoint is closed, and meanwhile the connections are served on; what is
  evaluated then is answered as if it were kept, and lost.
\<close>

lemma late_evaluation_not_saved:
  "\<exists>s. sample_life s \<and> lf_result s = Some (Ok ()) \<and>
     last (lf_effects s) = ImageWritten (eng_dump_env sample_engine (d_env sample_daemon)) \<and>
     EvalResult 9 (Ok (Some (lit ''x''))) \<in> set (cc_out (lf_conc s) 4) \<and>
     eng_dump_env sample_engine (d_env (cc_daemon (lf_conc s))) \<noteq> eng_dump_env sample_engine (d_env sample_daemon)"
proof (intro exI [of _ life_late] conjI)
  show "sample_life life_late" by (rule sample_lives(2))
  show "lf_result life_late = Some (Ok ())"
    by (simp add: life_late_def interrupted_def)
  show "last (lf_effects life_late) = ImageWritten (eng_dump_env sample_engine (d_env sample_daemon))"
    by (simp add: life_late_def interrupted_def life_at_def shutdown_effects_def conc_0_def)
  have "render_result (eng_display sample_engine) (Ok (SStr (lit ''x''))) = Ok (Some (lit ''x''))"
    by (simp add: render_result_def sample_engine_def)
  then show "EvalResult 9 (Ok (Some (lit ''x''))) \<in> set (cc_out (lf_conc life_late) 4)"
    by (simp add: life_late_def conc_5_def)
  show "eng_dump_env sample_engine (d_env (cc_daemon (lf_conc life_late))) \<noteq>
      eng_dump_env sample_engine (d_env sample_daemon)"
    by (simp add: life_late_def conc_5_def) (simp add: sample_engine_def sample_daemon_def)
qed

end
