(* ===== verification/Zs_Process.thy ===== *)
theory Zs_Process
  imports Zs_Rest Zs_Life
begin

text \<open>
  The daemon process as a whole, over bytes: the accept loop and its reasons to stop (\<open>Zs_Life\<close>)
  together with the connections of \<open>Zs_Wired\<close>, with peers that may connect and send before they are
  accepted, and the end of the process, which takes every task with it
  (\<open>run\<close> and \<open>handle_conn\<close> of \<open>src/src/daemon.rs\<close>, \<open>daemon_main\<close> of \<open>src/src/main.rs\<close>).
\<close>

section \<open>The composition\<close>

text \<open>
  The two machines share the connections' machine: \<open>lf_conc\<close> of the one is \<open>wi_conc\<close> of the other.
  \<open>pr_exited\<close> is set when \<open>main\<close> has returned, after \<open>run\<close> has.
\<close>

record ('e, 'cfg, 'ib, 'l) process =
  pr_wired :: "('e, 'cfg, 'ib, 'l) wired"
  pr_loop :: "('e, 'cfg, 'ib, 'l) life"
  pr_exited :: bool

text \<open>A connection nothing was done with.\<close>

definition same_conn :: "('e, 'cfg, 'ib, 'l) wired \<Rightarrow> ('e, 'cfg, 'ib, 'l) wired \<Rightarrow> nat \<Rightarrow> bool" where
  "same_conn w w' c \<longleftrightarrow>
     wi_stream w' c = wi_stream w c \<and> wi_ended w' c = wi_ended w c \<and> wi_requests w' c = wi_requests w c"

inductive process_step ::
  "('e, 'cfg, 'ib, 'l) engine \<Rightarrow> (response \<Rightarrow> (rstr, bytes) result) \<Rightarrow> (bytes \<Rightarrow> (rstr, request) result) \<Rightarrow>
     platform \<Rightarrow> (rstr, unit) result \<Rightarrow> path option \<Rightarrow>
     ('e, 'cfg, 'ib, 'l) process \<Rightarrow> ('e, 'cfg, 'ib, 'l) process \<Rightarrow> bool"
  for eng enc dec plat install img where
  process_peer: "peer_step (pr_wired p) w \<Longrightarrow>
    process_step eng enc dec plat install img p (p\<lparr>pr_wired := w\<rparr>)"
| process_serve: "\<not> pr_exited p \<Longrightarrow> serve_step eng enc dec (pr_wired p) w \<Longrightarrow>
    \<forall>c \<ge> lf_accepted (pr_loop p). same_conn (pr_wired p) w c \<Longrightarrow>
    process_step eng enc dec plat install img p
      (p\<lparr>pr_wired := w, pr_loop := (pr_loop p)\<lparr>lf_conc := wi_conc w\<rparr>\<rparr>)"
| process_loop: "\<not> pr_exited p \<Longrightarrow> life_step eng plat install img (pr_loop p) l \<Longrightarrow>
    lf_conc l = lf_conc (pr_loop p) \<Longrightarrow>
    process_step eng enc dec plat install img p (p\<lparr>pr_loop := l\<rparr>)"
| process_exit: "lf_result (pr_loop p) \<noteq> None \<Longrightarrow>
    process_step eng enc dec plat install img p (p\<lparr>pr_exited := True\<rparr>)"

definition process_init ::
  "('e, 'cfg, 'ib, 'l) daemon \<Rightarrow> daemon_effect list \<Rightarrow> ('e, 'cfg, 'ib, 'l) process \<Rightarrow> bool" where
  "process_init d1 effs1 p \<longleftrightarrow>
     wired_init d1 (pr_wired p) \<and> life_init d1 effs1 (\<lambda>_. []) (pr_loop p) \<and>
     lf_conc (pr_loop p) = wi_conc (pr_wired p) \<and> \<not> pr_exited p"

section \<open>Both machines in one\<close>

text \<open>The loop does not look at the inputs of the connections.\<close>

definition with_input ::
  "(nat \<Rightarrow> request list) \<Rightarrow> ('e, 'cfg, 'ib, 'l) life \<Rightarrow> ('e, 'cfg, 'ib, 'l) life" where
  "with_input ins s = s\<lparr>lf_conc := more_input ins (lf_conc s)\<rparr>"

lemma with_input_simps [simp]:
  "lf_conc (with_input ins s) = more_input ins (lf_conc s)" "lf_accepted (with_input ins s) = lf_accepted s"
  "lf_events (with_input ins s) = lf_events s" "lf_effects (with_input ins s) = lf_effects s"
  "lf_result (with_input ins s) = lf_result s" "lf_saved (with_input ins s) = lf_saved s"
  by (simp_all add: with_input_def)

lemma life_step_more_input:
  "life_step eng plat install img s t \<Longrightarrow>
     life_step eng plat install img (with_input ins s) (with_input ins t)"
proof (induction rule: life_step.induct)
  case (life_accept s)
  then have "life_step eng plat install img (with_input ins s) ((with_input ins s)
      \<lparr>lf_accepted := Suc (lf_accepted s), lf_events := lf_events s @ [Accepted]\<rparr>)"
    using life_step.life_accept [of "with_input ins s"] by simp
  then show ?case by (cases s) (simp add: with_input_def)
next
  case (life_accept_failed s e)
  then have "life_step eng plat install img (with_input ins s)
      ((with_input ins s)\<lparr>lf_events := lf_events s @ [AcceptFailed e]\<rparr>)"
    using life_step.life_accept_failed [of "with_input ins s"] by simp
  then show ?case by (cases s) (simp add: with_input_def)
next
  case (life_serve s t)
  then have "life_step eng plat install img (with_input ins s) ((with_input ins s)\<lparr>lf_conc := more_input ins t\<rparr>)"
    by (intro life_step.life_serve) (auto intro: conc_step_more_input)
  then show ?case by (cases s) (simp add: with_input_def)
next
  case (life_break s ev e)
  let ?saved = "if cc_lock (lf_conc s) = None then Some (cc_log (lf_conc s)) else None"
  have "life_step eng plat install img (with_input ins s) ((with_input ins s)\<lparr>lf_events := lf_events s @ [ev],
      lf_effects := lf_effects s @ shutdown_effects eng img e, lf_result := Some (Ok ()), lf_saved := ?saved\<rparr>)"
    using life_step.life_break [of "with_input ins s" plat install ev e eng img] life_break
    by (cases "cc_lock (lf_conc s)") simp_all
  then show ?case by (cases s) (simp add: with_input_def split del: if_split)
next
  case (life_no_handler s m)
  then have "life_step eng plat install img (with_input ins s) ((with_input ins s)
      \<lparr>lf_events := lf_events s @ [Terminated (Err m)], lf_result := Some (Err (RunMsg m))\<rparr>)"
    using life_step.life_no_handler [of "with_input ins s" plat install m] by simp
  then show ?case by (cases s) (simp add: with_input_def)
qed

lemma life_reachable_more_input:
  assumes "reachable (life_init d1 effs1 ins) (life_step eng plat install img) s"
  shows "reachable (life_init d1 effs1 (\<lambda>c. ins c @ new c)) (life_step eng plat install img) (with_input new s)"
  using assms
proof (induction rule: reachable.induct)
  case (reach_init s)
  then show ?case
    by (intro reachable.reach_init) (simp add: life_init_def conc_start_def conc_init_def with_input_def more_input_def)
next
  case (reach_step s t)
  from reach_step.IH life_step_more_input [OF reach_step.hyps(2)] show ?case by (rule reachable.reach_step)
qed

text \<open>
  The connections are those of the wired daemon; the loop with them is a process of \<open>Zs_Life\<close> whose
  inputs are the requests that were read.
\<close>

definition process_inv ::
  "('e, 'cfg, 'ib, 'l) engine \<Rightarrow> (response \<Rightarrow> (rstr, bytes) result) \<Rightarrow> (bytes \<Rightarrow> (rstr, request) result) \<Rightarrow>
     platform \<Rightarrow> (rstr, unit) result \<Rightarrow> path option \<Rightarrow> ('e, 'cfg, 'ib, 'l) daemon \<Rightarrow> daemon_effect list \<Rightarrow>
     ('e, 'cfg, 'ib, 'l) process \<Rightarrow> bool" where
  "process_inv eng enc dec plat install img d1 effs1 p \<longleftrightarrow>
     wired_inv eng enc dec d1 (pr_wired p) \<and> lf_conc (pr_loop p) = wi_conc (pr_wired p) \<and>
     reachable (life_init d1 effs1 (wi_requests (pr_wired p))) (life_step eng plat install img) (pr_loop p) \<and>
     (pr_exited p \<longrightarrow> lf_result (pr_loop p) \<noteq> None)"

text \<open>A step of the connections is, for the loop, a step of theirs or none.\<close>

lemma serve_is_life:
  assumes "serve_step eng enc dec w w'" and "cc_input (wi_conc w) = (\<lambda>_. [])"
    and "\<forall>c \<ge> lf_accepted l. same_conn w w' c" and "lf_conc l = wi_conc w"
    and "reachable (life_init d1 effs1 (wi_requests w)) (life_step eng plat install img) l"
  shows "reachable (life_init d1 effs1 (wi_requests w')) (life_step eng plat install img) (l\<lparr>lf_conc := wi_conc w'\<rparr>)"
  using assms
proof (induction rule: serve_step.induct)
  case (serve_read w c req s' t)
  let ?new = "(\<lambda>_. [])(c := [req])"
  have accepted: "c < lf_accepted l"
  proof (rule ccontr)
    assume "\<not> c < lf_accepted l"
    with serve_read.prems(2) have "same_conn w (w\<lparr>wi_conc := t, wi_stream := (wi_stream w)(c := s'),
        wi_requests := (wi_requests w)(c := wi_requests w c @ [req])\<rparr>) c" by simp
    then show False by (simp add: same_conn_def)
  qed
  have new: "(\<lambda>k. wi_requests w k @ ?new k) = (wi_requests w)(c := wi_requests w c @ [req])"
    by (simp add: fun_eq_iff)
  have conc: "more_input ?new (wi_conc w) = (wi_conc w)\<lparr>cc_input := ?new\<rparr>"
    using serve_read.prems(1) by (simp add: more_input_def fun_upd_def)
  have "life_step eng plat install img (with_input ?new l) ((with_input ?new l)\<lparr>lf_conc := t\<rparr>)"
    using serve_read.hyps(4,5) accepted serve_read.prems(3)
    by (intro life_serve) (simp_all add: with_input_def conc)
  from reach_step [OF life_reachable_more_input [OF serve_read.prems(4), of ?new, unfolded new] this]
  show ?case by (simp add: with_input_def del: fun_upd_apply)
next
  case (serve_run w t)
  then have "life_step eng plat install img l (l\<lparr>lf_conc := t\<rparr>)"
    using input_consumed [OF serve_run.hyps] by (intro life_serve) simp_all
  from reach_step [OF serve_run.prems(4) this] show ?case by simp
next
  case (serve_close w c)
  have "l\<lparr>lf_conc := wi_conc w\<rparr> = l" using serve_close.prems(3) by (cases l) simp
  with serve_close.prems(4) show ?case by simp
next
  case (serve_fail w c e)
  have "l\<lparr>lf_conc := wi_conc w\<rparr> = l" using serve_fail.prems(3) by (cases l) simp
  with serve_fail.prems(4) show ?case by simp
next
  case (serve_write w c s' r)
  have "l\<lparr>lf_conc := wi_conc w\<rparr> = l" using serve_write.prems(3) by (cases l) simp
  with serve_write.prems(4) show ?case by simp
qed

lemma peer_requests: "peer_step w w' \<Longrightarrow> wi_requests w' = wi_requests w \<and> wi_conc w' = wi_conc w"
  by (induction rule: peer_step.induct) simp_all

lemma life_result_kept: "life_step eng plat install img l l' \<Longrightarrow> lf_result l \<noteq> None \<Longrightarrow> lf_result l' = lf_result l"
  by (induction rule: life_step.induct) auto

lemma process_inv_step:
  "process_step eng enc dec plat install img p p' \<Longrightarrow> process_inv eng enc dec plat install img d1 effs1 p \<Longrightarrow>
     process_inv eng enc dec plat install img d1 effs1 p'"
proof (induction rule: process_step.induct)
  case (process_peer p w)
  then show ?case
    using wired.inv_step [of eng enc dec "pr_wired p" w] peer_requests [OF process_peer.hyps]
    by (simp add: process_inv_def wired_step_def)
next
  case (process_serve p w)
  then have inv: "wired_inv eng enc dec d1 (pr_wired p)" by (simp add: process_inv_def)
  then have "cc_input (wi_conc (pr_wired p)) = (\<lambda>_. [])" by (simp add: wired_inv_def requests_inv_def)
  moreover have "wired_inv eng enc dec d1 w"
    using process_serve.hyps(2) inv by (auto simp: wired_step_def intro: wired.inv_step)
  ultimately show ?case
    using serve_is_life [OF process_serve.hyps(2) _ process_serve.hyps(3)] process_serve by (simp add: process_inv_def)
next
  case (process_loop p l)
  then show ?case
    by (auto simp: process_inv_def intro: reach_step)
qed (simp add: process_inv_def)

interpretation process: inductive_invariant "process_init d1 effs1"
  "process_step eng enc dec plat install img" "process_inv eng enc dec plat install img d1 effs1"
  for eng :: "('e, 'cfg, 'ib, 'l) engine" and enc dec plat install img d1 effs1
proof
  fix p :: "('e, 'cfg, 'ib, 'l) process"
  show "process_inv eng enc dec plat install img d1 effs1 p" if "process_init d1 effs1 p"
    using that by (auto simp: process_init_def process_inv_def wired_init_def intro: reach_init wired.inv_init)
qed (fact process_inv_step)

section \<open>What the outside sees\<close>

lemma serve_log_none: "of_conn c log = [] \<Longrightarrow> out_of (serve_log eng d0 log) c = []"
  using serve_log_others [of log c eng d0 "[]"]
  by (auto simp: of_conn_def filter_empty_conv serve_log_def out_of_def)

lemma frames_of_Nil [simp]: "frames_of enc [] = []"
  by (simp add: frames_of_def)

lemma process_parts:
  assumes "process_inv eng enc dec plat install img d1 effs1 p"
  shows "wired_inv eng enc dec d1 (pr_wired p)" and "loop_inv eng img d1 effs1 (pr_loop p)"
    and "served_inv eng d1 (wi_requests (pr_wired p)) (pr_loop p)"
    and "lf_conc (pr_loop p) = wi_conc (pr_wired p)"
proof -
  from assms have "reachable (life_init d1 effs1 (wi_requests (pr_wired p))) (life_step eng plat install img) (pr_loop p)"
    by (simp add: process_inv_def)
  from life.both.always [OF this]
  show "loop_inv eng img d1 effs1 (pr_loop p)" "served_inv eng d1 (wi_requests (pr_wired p)) (pr_loop p)"
    by simp_all
qed (use assms in \<open>simp_all add: process_inv_def\<close>)

lemma unaccepted_unread:
  assumes "process_inv eng enc dec plat install img d1 effs1 p" and "lf_accepted (pr_loop p) \<le> c"
  shows "wi_requests (pr_wired p) c = []"
proof -
  note parts = process_parts [OF assms(1)]
  have "cc_input (wi_conc (pr_wired p)) c = wi_requests (pr_wired p) c"
    using parts(3,4) assms(2) by (simp add: served_inv_def)
  then show ?thesis using parts(1) by (simp add: wired_inv_def requests_inv_def)
qed


section \<open>A control command at the end of the daemon\<close>

text \<open>
  The daemon's end of a connection is closed when its handler has returned and its writer has nothing
  left, or when the process is gone.
\<close>

definition hung_up :: "('e, 'cfg, 'ib, 'l) process \<Rightarrow> nat \<Rightarrow> bool" where
  "hung_up p c \<longleftrightarrow> pr_exited p \<or>
     (cc_phase (wi_conc (pr_wired p)) c = RunEnded \<or> wi_ended (pr_wired p) c \<noteq> None) \<and>
     (wi_writing (pr_wired p) c \<longrightarrow> wi_written (pr_wired p) c = length (cc_out (wi_conc (pr_wired p)) c))"

text \<open>A handled \<open>Stop\<close> is never forgotten.\<close>

lemma stop_kept:
  "conc_step eng s t \<Longrightarrow> \<forall>c. (c, Stop) \<in> set (cc_log s) \<longrightarrow> d_stop (cc_daemon s) \<Longrightarrow>
     \<forall>c. (c, Stop) \<in> set (cc_log t) \<longrightarrow> d_stop (cc_daemon t)"
proof (induction rule: conc_step.induct)
  case (conc_simple s k req reqs rs ienv' d' go)
  then show ?case by (cases req) (auto simp: handle_request_def)
qed auto

interpretation stop_flag: inductive_invariant "conc_init d0 inputs" "conc_step eng"
  "\<lambda>s. \<forall>c. (c, Stop) \<in> set (cc_log s) \<longrightarrow> d_stop (cc_daemon s)"
  for eng :: "('e, 'cfg, 'ib, 'l) engine" and d0 inputs
proof
  show "\<forall>c. (c, Stop) \<in> set (cc_log t) \<longrightarrow> d_stop (cc_daemon t)"
    if "conc_step eng s t" "\<forall>c. (c, Stop) \<in> set (cc_log s) \<longrightarrow> d_stop (cc_daemon s)" for s t :: "('e, 'cfg, 'ib, 'l) conc"
    using that by (rule stop_kept)
qed (simp add: conc_init_def)

lemma idle_out:
  assumes "serial_inv eng d0 s" and "current (cc_phase s c) = []"
  shows "cc_out s c = out_of (serve_log eng d0 (cc_log s)) c"
  using assms by (fastforce simp: serial_inv_def mid_evaluation_def out_of_def split: option.splits)

fun plain_answer :: "request \<Rightarrow> response" where
  "plain_answer Stop = Stopping"
| "plain_answer Reset = ResetDone"
| "plain_answer req = Pong"

lemma lone_request_out:
  assumes "of_conn c log = [req]" and "req = Stop \<or> req = Reset"
  shows "out_of (serve_log eng d0 log) c = [plain_answer req]"
proof -
  from assms(1) obtain k where "(k, req) \<in> set log" "k = c"
    by (auto simp: of_conn_def filter_eq_Cons_iff)
  then obtain log1 log2 where log: "log = (log1 @ [(c, req)]) @ log2" by (auto dest: split_list)
  with assms(1) have "of_conn c log1 = []" "of_conn c log2 = []"
    by (auto simp: of_conn_def append_eq_Cons_conv)
  then have "out_of (serve_log eng d0 log) c = out_of (serve_log eng d0 (log1 @ [(c, req)])) c"
    and "out_of (serve_log eng d0 log1) c = []"
    unfolding log by (simp_all only: serve_log_none) (rule serve_log_others, auto simp: of_conn_def filter_empty_conv)
  with assms(2) show ?thesis
    by (cases "serve_log eng d0 log1") (auto simp: serve_log_snoc serve_one_def out_of_def handle_request_def)
qed

text \<open>What was written to a connection with one plain request, once the daemon has hung up.\<close>

lemma hung_up_written:
  assumes inv: "process_inv eng enc dec plat install img d1 effs1 p" and "hung_up p c"
    and req: "req = Stop \<or> req = Reset" "frame_ok renc dec req"
    and "wi_arrived (pr_wired p) c = frame_bytes renc req" and "room (wi_stream (pr_wired p) c) = None"
    and "frame_ok enc rdec (plain_answer req)"
  shows "outgoing (wi_stream (pr_wired p) c) = [] \<and> pr_exited p \<or>
    outgoing (wi_stream (pr_wired p) c) = frame_bytes enc (plain_answer req) \<and>
      (c, req) \<in> set (cc_log (wi_conc (pr_wired p)))"
proof -
  let ?w = "pr_wired p"
  have wired: "wired_inv eng enc dec d1 ?w" using inv by (simp add: process_inv_def)
  note conc = wired_conc [OF wired]
  have "read_ok renc ?w c [req]"
    using wired req(2) assms(5) by (simp add: wired_inv_def reading_inv_def)
  then obtain left where left: "[req] = wi_requests ?w c @ left"
    and arrived: "wi_arrived ?w c = concat (map (frame_bytes renc) (wi_requests ?w c)) @ incoming (wi_stream ?w c)"
    by (auto simp: read_ok_def)
  have written: "written_ok enc ?w c" using wired by (simp add: wired_inv_def writing_inv_def)
  show ?thesis
  proof (cases "wi_requests ?w c")
    case Nil
    with conc(4) [of c] have none: "of_conn c (cc_log (wi_conc ?w)) = []" "current (cc_phase (wi_conc ?w) c) = []"
      by simp_all
    then have "cc_out (wi_conc ?w) c = []" using idle_out [OF conc(3)] by (simp add: serve_log_none)
    with written have "outgoing (wi_stream ?w c) = []" by (simp add: written_ok_def Let_def)
    moreover have "pr_exited p"
    proof (rule ccontr)
      assume "\<not> pr_exited p"
      moreover have "cc_phase (wi_conc ?w) c \<noteq> RunEnded"
      proof -
        have "reachable (conc_init d1 (wi_requests ?w)) (conc_step eng) (wi_conc ?w)"
          using wired by (simp add: wired_inv_def requests_inv_def)
        from stopped.always [OF this] none(1) show ?thesis by auto
      qed
      ultimately have "wi_ended ?w c \<noteq> None" using assms(2) by (simp add: hung_up_def)
      moreover have "read_frame dec (wi_stream ?w c) = FrameGot req ((wi_stream ?w c)\<lparr>incoming := []\<rparr>)"
        using req(2) arrived assms(5) Nil
        by (intro read_frame_written [where into_writer = renc and rest = "[]"]) simp_all
      ultimately show False using wired by (auto simp: wired_inv_def reading_inv_def ended_ok_def)
    qed
    ultimately show ?thesis by simp
  next
    case (Cons r rs)
    with left have reqs: "wi_requests ?w c = [req]" by (cases rs) auto
    with conc(4) [of c] req(1) have log: "of_conn c (cc_log (wi_conc ?w)) = [req]" "current (cc_phase (wi_conc ?w) c) = []"
      by (cases "cc_phase (wi_conc ?w) c"; auto)+
    then have out: "cc_out (wi_conc ?w) c = [plain_answer req]"
      using idle_out [OF conc(3)] lone_request_out [OF log(1) req(1)] by simp
    have writing: "wi_writing ?w c"
      using written assms(6,7) out by (auto simp: written_ok_def Let_def take_Cons' split: if_splits)
    consider "wi_written ?w c = 0" | "wi_written ?w c = 1"
      using written out by (fastforce simp: written_ok_def Let_def le_Suc_eq)
    then show ?thesis
    proof cases
      case 1
      with written writing have "outgoing (wi_stream ?w c) = []" by (simp add: written_ok_def Let_def)
      moreover have "pr_exited p" using assms(2) 1 out writing by (auto simp: hung_up_def)
      ultimately show ?thesis by simp
    next
      case 2
      with written writing out have "outgoing (wi_stream ?w c) = frame_bytes enc (plain_answer req)"
        by (simp add: written_ok_def Let_def)
      moreover have "(c, req) \<in> set (cc_log (wi_conc ?w))"
        using log(1) by (auto simp: of_conn_def filter_eq_Cons_iff)
      ultimately show ?thesis by simp
    qed
  qed
qed

text \<open>What the client makes of it: the answer, or the end of the stream.\<close>

lemma request_until_ended:
  assumes "frame_ok renc dec req" and "room s = None" and "ending s = Closed"
    and "incoming s = [] \<or> incoming s = frame_bytes enc m" and "frame_ok enc rdec m" and "matches m"
  shows "\<exists>s'. snd (request_until renc rdec req matches s) = (if incoming s = [] then UntilNone else UntilFound m s')"
proof -
  let ?s = "s\<lparr>outgoing := outgoing s @ frame_bytes renc req\<rparr>"
  have "snd (request_until renc rdec req matches s) = read_until rdec matches ?s"
    using write_frame_ok [OF assms(1,2)] by (simp add: request_until_def)
  moreover have "read_until rdec matches ?s = UntilNone" if "incoming s = []"
    using that assms(3) by (intro read_until_closed [where into_writer = enc and ms = "[]"]) simp_all
  moreover have "read_until rdec matches ?s = UntilFound m (?s\<lparr>incoming := []\<rparr>)" if "incoming s \<noteq> []"
    using that assms(4-6) by (intro read_until_found [where into_writer = enc and ms = "[]"]) simp_all
  ultimately show ?thesis by auto
qed

lemma frame_bytes_ne: "frame_ok enc dec m \<Longrightarrow> frame_bytes enc m \<noteq> []"
  by (auto simp: frame_ok_def frame_bytes_def to_be_bytes_def split: sum.splits)

text \<open>
  C33.  A control command ends whenever the daemon's end does, and tells the truth: a client whose
  connection brought the daemon a \<open>Stop\<close> or a \<open>Reset\<close>, in any pieces, and was closed because the
  daemon hung up, in whatever state of the process, returns.  \<open>stop\<close> succeeds, with or without an
  acknowledgement, and then the daemon has been told to stop or is gone; \<open>reset\<close> succeeds exactly
  when it read the acknowledgement, and then the daemon has handled it; otherwise the process is gone
  and the user is told.
\<close>

theorem control_commands_end:
  assumes "reachable (process_init d1 effs1) (process_step eng enc dec plat install img) p" and "hung_up p c"
    and "req = Stop \<or> req = Reset" and "frame_ok renc dec req"
    and "wi_arrived (pr_wired p) c = frame_bytes renc req" and "room (wi_stream (pr_wired p) c) = None"
    and "frame_ok enc rdec (if req = Stop then Stopping else ResetDone)"
    and "incoming s = outgoing (wi_stream (pr_wired p) c)" and "ending s = Closed" and "room s = None"
  shows "if req = Stop
    then client_stop renc rdec (Ok s) = ([eprintln (lit ''zscheme daemon stopped'')], Returned (Ok ())) \<and>
      (d_stop (cc_daemon (wi_conc (pr_wired p))) \<or> pr_exited p)
    else client_reset renc rdec (Ok s) = ([eprintln (lit ''session environment reset'')], Returned (Ok ())) \<and>
        (c, Reset) \<in> set (cc_log (wi_conc (pr_wired p))) \<or>
      client_reset renc rdec (Ok s) =
        ([], Returned (Err (ClientMsg (lit ''daemon closed connection before confirming reset'')))) \<and> pr_exited p"
proof -
  have inv: "process_inv eng enc dec plat install img d1 effs1 p" by (rule process.always [OF assms(1)])
  have "reachable (conc_init d1 (wi_requests (pr_wired p))) (conc_step eng) (wi_conc (pr_wired p))"
    using process_parts(1) [OF inv] by (simp add: wired_inv_def requests_inv_def)
  note flag = stop_flag.always [OF this]
  have answer: "plain_answer req = (if req = Stop then Stopping else ResetDone)" using assms(3) by auto
  have ok: "frame_ok enc rdec (plain_answer req)" using assms(7) by (simp add: answer)
  note written = hung_up_written [OF inv assms(2-6) ok]
  have "incoming s = [] \<or> incoming s = frame_bytes enc (plain_answer req)" using written assms(8) by auto
  note until = request_until_ended [OF assms(4,10,9) this ok]
  have cases: "incoming s = [] \<and> pr_exited p \<or> incoming s \<noteq> [] \<and> (c, req) \<in> set (cc_log (wi_conc (pr_wired p)))"
    using written assms(8) frame_bytes_ne [OF ok] by auto
  show ?thesis
  proof (cases "req = Stop")
    case True
    with until [of is_stopping] cases flag show ?thesis
      by (auto simp: client_stop_def connect_existing_def is_stopping_def)
  next
    case False
    with assms(3) have "req = Reset" by simp
    with until [of is_reset_done] cases show ?thesis
      by (auto simp: client_reset_def connect_existing_def is_reset_done_def)
  qed
qed

text \<open>
  The same for a daemon that takes over: having asked the old one to stop, it goes on to wait for the
  socket file, whether the acknowledgement was written or the old process ended first.
\<close>

lemma takeover_goes_on:
  assumes "reachable (process_init d1 effs1) (process_step eng enc dec plat install img) p" and "hung_up p c"
    and "frame_ok renc dec Stop"
    and "wi_arrived (pr_wired p) c = frame_bytes renc Stop" and "room (wi_stream (pr_wired p) c) = None"
    and "frame_ok enc rdec Stopping"
    and "incoming s = outgoing (wi_stream (pr_wired p) c)" and "ending s = Closed" and "room s = None"
    and "path_exists 0" and "connect 0 = Some s"
  shows "claim_socket renc rdec (Ok path) path_exists connect remove_file =
    (if wait_released path_exists 1 50 then Claimed
     else if connect 1 \<noteq> None
     then ClaimRefused (lit ''running daemon did not release '' @ path @ lit '' '' @ em_dash # lit '' kill it manually'')
     else remove_stale remove_file path)"
proof -
  have inv: "process_inv eng enc dec plat install img d1 effs1 p" by (rule process.always [OF assms(1)])
  have ok: "frame_ok enc rdec (plain_answer Stop)" using assms(6) by simp
  have "incoming s = [] \<or> incoming s = frame_bytes enc (plain_answer Stop)"
    using hung_up_written [OF inv assms(2) disjI1 [OF refl] assms(3-5) ok] assms(7) by auto
  then have "incoming s = [] \<or> incoming s = frame_bytes enc Stopping" by simp
  from request_until_ended [OF assms(3,9,8) this assms(6), of is_stopping]
  obtain s' where "snd (request_until renc rdec Stop is_stopping s) = (if incoming s = [] then UntilNone else UntilFound Stopping s')"
    by (auto simp: is_stopping_def split del: if_split)
  then show ?thesis
    using assms(10,11) write_frame_ok [OF assms(3,9)]
    by (auto simp: claim_socket_def request_until_def split: if_splits)
qed

section \<open>A sample\<close>

text \<open>
  A client connects and sends \<open>Stop\<close>, its connection is accepted, the request read, the loop left,
  and the process ends before the acknowledgement has been written.
\<close>

definition stop_request :: "bytes" where
  "stop_request = [0, 0, 0, 1, 3]"

definition proc_0 :: "(rstr list, unit, unit, unit) process" where
  "proc_0 = \<lparr>pr_wired = sample_wired, pr_loop = (life_at (wi_conc sample_wired))\<lparr>lf_accepted := 0, lf_events := []\<rparr>,
     pr_exited = False\<rparr>"

definition proc_1 :: "(rstr list, unit, unit, unit) process" where
  "proc_1 = proc_0\<lparr>pr_wired := sent stop_request sample_wired,
     pr_loop := (pr_loop proc_0)\<lparr>lf_accepted := 1, lf_events := [Accepted]\<rparr>\<rparr>"

definition stopped_conc :: "(rstr list, unit, unit, unit) conc" where
  "stopped_conc = (wi_conc sample_wired)\<lparr>cc_daemon := sample_daemon\<lparr>d_stop := True\<rparr>,
     cc_phase := (\<lambda>_. RunIdle)(0 := RunEnded), cc_out := (\<lambda>_. [])(0 := [Stopping]), cc_log := [(0, Stop)]\<rparr>"

definition stop_read :: "(rstr list, unit, unit, unit) wired" where
  "stop_read = (sent stop_request sample_wired)\<lparr>wi_conc := stopped_conc, wi_stream := wi_stream sample_wired,
     wi_requests := (\<lambda>_. [])(0 := [Stop])\<rparr>"

definition proc_2 :: "(rstr list, unit, unit, unit) process" where
  "proc_2 = proc_1\<lparr>pr_wired := stop_read, pr_loop := (pr_loop proc_1)\<lparr>lf_conc := stopped_conc\<rparr>\<rparr>"

definition proc_3 :: "(rstr list, unit, unit, unit) process" where
  "proc_3 = proc_2\<lparr>pr_loop := (pr_loop proc_2)\<lparr>lf_events := [Accepted, StopNotified],
     lf_effects := [SocketBound, SocketPrivate, SocketRemoved], lf_result := Some (Ok ()), lf_saved := Some [(0, Stop)]\<rparr>,
     pr_exited := True\<rparr>"

abbreviation sample_process_step ::
  "(rstr list, unit, unit, unit) process \<Rightarrow> (rstr list, unit, unit, unit) process \<Rightarrow> bool" where
  "sample_process_step \<equiv>
     process_step sample_engine (table_enc [(Stopping, [1])]) (table_dec [(Stop, [3])]) Unix (Ok ()) None"

abbreviation sample_process :: "(rstr list, unit, unit, unit) process \<Rightarrow> bool" where
  "sample_process \<equiv> reachable (process_init sample_daemon []) sample_process_step"

lemma sample_process_0: "sample_process proc_0"
  using conc_0_start
  by (intro reach_init)
    (simp add: process_init_def proc_0_def wired_init_def life_init_def life_at_def sample_wired_def conc_start_def conc_init_def)

lemma sample_process_1: "sample_process proc_1"
proof -
  have "peer_step sample_wired (sent stop_request sample_wired)"
    unfolding sent_def by (rule peer_sends) (simp add: sample_wired_def)
  then have "sample_process_step proc_0 (proc_0\<lparr>pr_wired := sent stop_request sample_wired\<rparr>)"
    by (intro process_peer) (simp add: proc_0_def)
  note sends = reach_step [OF sample_process_0 this]
  have "sample_process_step (proc_0\<lparr>pr_wired := sent stop_request sample_wired\<rparr>) proc_1"
    unfolding proc_1_def
    using process_loop [of "proc_0\<lparr>pr_wired := sent stop_request sample_wired\<rparr>" sample_engine Unix "Ok ()" None
        "(pr_loop proc_0)\<lparr>lf_accepted := 1, lf_events := [Accepted]\<rparr>"]
      life_accept [of "pr_loop proc_0" sample_engine Unix "Ok ()" None]
    by (simp add: proc_0_def life_at_def)
  from reach_step [OF sends this] show ?thesis .
qed

lemma stop_request_read:
  "read_frame (table_dec [(Stop, [3])]) (wi_stream (sent stop_request sample_wired) 0) =
     FrameGot Stop (wi_stream sample_wired 0)"
  by (simp add: sent_def sample_wired_def stop_request_def read_frame_def read_exact_def from_be_bytes_def
      max_frame_len_def table_dec_def)

lemma sample_process_2: "sample_process proc_2"
proof -
  let ?w = "sent stop_request sample_wired"
  have "conc_step sample_engine ((wi_conc ?w)\<lparr>cc_input := (\<lambda>_. [])(0 := [Stop])\<rparr>) stopped_conc"
    using conc_simple [of "(wi_conc ?w)\<lparr>cc_input := (\<lambda>_. [])(0 := [Stop])\<rparr>" 0 Stop "[]" sample_engine "[Stopping]"
        None "sample_daemon\<lparr>d_stop := True\<rparr>" False]
    by (simp add: stopped_conc_def sent_def sample_wired_def conc_0_def handle_request_def fun_upd_def cong: if_cong)
  moreover have "cc_input stopped_conc = (\<lambda>_. [])" by (simp add: stopped_conc_def sample_wired_def)
  moreover have "stop_read = ?w\<lparr>wi_conc := stopped_conc, wi_stream := (wi_stream ?w)(0 := wi_stream sample_wired 0),
      wi_requests := (wi_requests ?w)(0 := wi_requests ?w 0 @ [Stop])\<rparr>"
    by (simp add: stop_read_def sent_def sample_wired_def fun_eq_iff)
  ultimately have "serve_step sample_engine (table_enc [(Stopping, [1])]) (table_dec [(Stop, [3])]) ?w stop_read"
    using serve_read [OF _ _ stop_request_read, of sample_engine stopped_conc "table_enc [(Stopping, [1])]"]
    by (simp add: sent_def sample_wired_def conc_0_def)
  moreover have "\<forall>c \<ge> 1. same_conn ?w stop_read c"
    by (simp add: same_conn_def stop_read_def sent_def sample_wired_def)
  ultimately have "sample_process_step proc_1 proc_2"
    using process_serve [of proc_1 sample_engine "table_enc [(Stopping, [1])]" "table_dec [(Stop, [3])]" stop_read Unix "Ok ()" None]
    by (simp add: proc_1_def proc_2_def proc_0_def stop_read_def)
  from reach_step [OF sample_process_1 this] show ?thesis .
qed

lemma sample_process_3: "sample_process proc_3"
proof -
  let ?l = "(pr_loop proc_2)\<lparr>lf_events := [Accepted, StopNotified],
     lf_effects := [SocketBound, SocketPrivate, SocketRemoved], lf_result := Some (Ok ()), lf_saved := Some [(0, Stop)]\<rparr>"
  have "life_step sample_engine Unix (Ok ()) None (pr_loop proc_2) ?l"
    using life_break [of "pr_loop proc_2" Unix "Ok ()" StopNotified "d_env sample_daemon" sample_engine None]
    by (simp add: proc_2_def proc_1_def proc_0_def life_at_def stopped_conc_def sample_wired_def conc_0_def shutdown_effects_def)
  then have "sample_process_step proc_2 (proc_2\<lparr>pr_loop := ?l\<rparr>)"
    by (intro process_loop) (simp_all add: proc_2_def proc_1_def proc_0_def)
  note left = reach_step [OF sample_process_2 this]
  have "sample_process_step (proc_2\<lparr>pr_loop := ?l\<rparr>) proc_3"
    using process_exit [of "proc_2\<lparr>pr_loop := ?l\<rparr>"] by (simp add: proc_3_def)
  from reach_step [OF left this] show ?thesis .
qed


theorem control_commands_end_witness:
  "client_stop (table_enc [(Stop, [3])]) (table_dec [(Stopping, [1])])
     (Ok \<lparr>incoming = [], ending = Closed, outgoing = [], room = None\<rparr>) =
     ([eprintln (lit ''zscheme daemon stopped'')], Returned (Ok ()))"
proof -
  have "hung_up proc_3 0" by (simp add: hung_up_def proc_3_def)
  moreover have "frame_ok (table_enc [(Stop, [3])]) (table_dec [(Stop, [3])]) Stop"
    "frame_ok (table_enc [(Stopping, [1])]) (table_dec [(Stopping, [1])]) Stopping"
    by (simp_all add: frame_ok_def table_enc_def table_dec_def)
  moreover have "wi_arrived (pr_wired proc_3) 0 = frame_bytes (table_enc [(Stop, [3])]) Stop"
    by (simp add: proc_3_def proc_2_def stop_read_def sent_def sample_wired_def stop_request_def frame_bytes_def
        table_enc_def to_be_bytes_def)
  moreover have "room (wi_stream (pr_wired proc_3) 0) = None" "outgoing (wi_stream (pr_wired proc_3) 0) = []"
    by (simp_all add: proc_3_def proc_2_def stop_read_def sample_wired_def)
  ultimately show ?thesis
    using control_commands_end [OF sample_process_3, of 0 Stop "table_enc [(Stop, [3])]" "table_dec [(Stopping, [1])]"
        "\<lparr>incoming = [], ending = Closed, outgoing = [], room = None\<rparr>"]
    by simp
qed

end
