(* ===== verification/Zs_Session.thy ===== *)
theory Zs_Session
  imports Zs_Frontend
begin

text \<open>
  The whole path of an interactive session: the REPL over a client whose bytes go to a daemon
  connection and back, against the REPL over the in-process evaluator.  The two are related by the
  backend contract, so a session typed at one gives, line for line, the session at the other.
\<close>

section \<open>The in-process evaluator on the daemon's state\<close>

type_synonym ('e, 'cfg, 'ib, 'l) world = "'e \<times> ('cfg, 'ib, 'l) cli_ctx"

definition world_dot ::
  "('e, 'cfg, 'ib, 'l) engine \<Rightarrow> rstr \<Rightarrow> (('e, 'cfg, 'ib, 'l) world, 'l) evaluation" where
  "world_dot eng command w =
     (case host_eval_dot eng command (snd w) of (texts, r, ctx') \<Rightarrow> (texts, r, (fst w, ctx')))"

definition world_source ::
  "('e, 'cfg, 'ib, 'l) engine \<Rightarrow> rstr \<Rightarrow> (('e, 'cfg, 'ib, 'l) world, 'l) evaluation" where
  "world_source eng source w =
     (case eng_eval_source eng source (fst w) (snd w) of (texts, r, env', ctx') \<Rightarrow> (texts, r, (env', ctx')))"

definition world_eval ::
  "('e, 'cfg, 'ib, 'l) engine \<Rightarrow> ('e, 'cfg, 'ib, 'l) world repl_eval" where
  "world_eval eng = local_eval (eng_display eng) (world_dot eng) (world_source eng)"

text \<open>
  The display sink is the context's own business: the evaluator neither looks at it nor changes
  it.  (It is reachable only through \<open>display_output\<close>, whose texts an evaluation returns.)
\<close>

definition sink_blind :: "('e, 'cfg, 'ib, 'l) engine \<Rightarrow> bool" where
  "sink_blind eng \<longleftrightarrow>
     (\<forall>source env ctx texts r env' ctx' k.
        eng_eval_source eng source env ctx = (texts, r, env', ctx') \<longrightarrow>
          eng_eval_source eng source env (set_display_sink k ctx) = (texts, r, env', set_display_sink k ctx') \<and>
          display_sink ctx' = display_sink ctx)"

lemma set_display_sink_twice [simp]:
  "set_display_sink k (set_display_sink j ctx) = set_display_sink k ctx"
  by (simp add: set_display_sink_def)

lemma set_display_sink_own: "display_sink ctx = k \<Longrightarrow> set_display_sink k ctx = ctx"
  by (cases ctx) (simp add: set_display_sink_def)

lemma eval_dot_sink:
  "eval_dot parse reg command ctx = (r, ctx') \<Longrightarrow>
     eval_dot parse reg command (set_display_sink k ctx) = (r, set_display_sink k ctx') \<and>
     display_sink ctx' = display_sink ctx"
  by (auto simp: eval_dot_def set_display_sink_def Let_def split: option.splits dot_op.splits if_splits)

text \<open>A shared evaluation in the daemon is the in-process evaluation of the same source.\<close>

lemma eval_request_local:
  assumes "sink_blind eng" and "display_sink (d_ctx d) = None"
    and "world_eval eng source (d_env d, d_ctx d) = (outs, Some outcome, (env', ctx'))"
  shows "\<exists>texts. outs = map StdOut texts \<and>
    eval_request eng conn rid source False ienv d =
      (map (ToSink conn rid) texts, outcome, ienv, d\<lparr>d_env := env', d_ctx := ctx'\<rparr>) \<and>
    display_sink ctx' = None"
proof (cases "is_dot_command_line source")
  case True
  obtain texts r ctx1 where dot: "eval_dot_line (host_eval_dot eng) source (d_ctx d) = (texts, r, ctx1)"
    by (metis prod_cases3)
  then have sink: "eval_dot_line (host_eval_dot eng) source (set_display_sink (Some (Sink conn rid)) (d_ctx d)) =
      (texts, r, set_display_sink (Some (Sink conn rid)) ctx1) \<and> display_sink ctx1 = None"
    using assms(2) eval_dot_sink [where k = "Some (Sink conn rid)"]
    by (fastforce simp: eval_dot_line_def host_eval_dot_def Let_def split: prod.splits)
  have "outs = map StdOut texts" "outcome = render_result (eng_display eng) r" "env' = d_env d" "ctx' = ctx1"
    using assms(3) dot True
    by (auto simp: world_eval_def local_eval_def eval_line_def eval_dot_line_def world_dot_def Let_def
        split: prod.splits)
  moreover have "run_evaluation eng source False ienv (d_env d) (set_display_sink (Some (Sink conn rid)) (d_ctx d)) =
      (texts, r, ienv, d_env d, set_display_sink (Some (Sink conn rid)) ctx1)"
    using True sink by (simp add: run_evaluation_def)
  ultimately show ?thesis
    using sink by (auto simp: eval_request_unfold set_display_sink_own)
next
  case False
  obtain texts r env1 ctx1 where src: "eng_eval_source eng source (d_env d) (d_ctx d) = (texts, r, env1, ctx1)"
    by (metis prod_cases4)
  then have sink: "eng_eval_source eng source (d_env d) (set_display_sink (Some (Sink conn rid)) (d_ctx d)) =
      (texts, r, env1, set_display_sink (Some (Sink conn rid)) ctx1) \<and> display_sink ctx1 = None"
    using assms(1,2) unfolding sink_blind_def by metis
  have "outs = map StdOut texts" "outcome = render_result (eng_display eng) r" "env' = env1" "ctx' = ctx1"
    using assms(3) src False
    by (auto simp: world_eval_def local_eval_def eval_line_def world_source_def split: prod.splits)
  moreover have "run_evaluation eng source False ienv (d_env d) (set_display_sink (Some (Sink conn rid)) (d_ctx d)) =
      (texts, r, ienv, env1, set_display_sink (Some (Sink conn rid)) ctx1)"
    using False sink by (simp add: run_evaluation_def)
  ultimately show ?thesis
    using sink by (auto simp: eval_request_unfold set_display_sink_own)
qed

section \<open>A client wired to a daemon connection\<close>

text \<open>The two sides' codecs: requests from client to daemon, responses back.\<close>

record codecs =
  req_writer :: "request \<Rightarrow> (rstr, bytes) result"
  req_reader :: "bytes \<Rightarrow> (rstr, request) result"
  resp_writer :: "response \<Rightarrow> (rstr, bytes) result"
  resp_reader :: "bytes \<Rightarrow> (rstr, response) result"

definition wire :: "bytes \<Rightarrow> ipc_stream" where
  "wire bs = \<lparr>incoming = bs, ending = StillOpen, outgoing = [], room = None\<rparr>"

text \<open>
  One evaluation over the wire: the bytes the client sends are what the daemon's connection reads,
  and the bytes the daemon's writer task sends are what the client reads.
\<close>

definition linked_eval ::
  "rstr \<Rightarrow> ('e, 'cfg, 'ib, 'l) engine \<Rightarrow> codecs \<Rightarrow> nat \<Rightarrow>
     (client \<times> 'e option \<times> ('e, 'cfg, 'ib, 'l) daemon) repl_eval" where
  "linked_eval eof_text eng cd conn source st =
     (case st of (c, ienv, d) \<Rightarrow>
       (let quiet = snd (snd (client_eval (req_writer cd) (resp_reader cd) source c));
            sent = drop (length (outgoing (cl_stream c))) (outgoing (cl_stream quiet)) in
        case handle_loop eng (req_reader cd) conn (wire sent) ienv d of
          (rs, ienv', d', _) \<Rightarrow>
            (let reply = outgoing (writer_task (resp_writer cd) rs (wire []));
                 c1 = c\<lparr>cl_stream := (cl_stream c)\<lparr>incoming := incoming (cl_stream c) @ reply\<rparr>\<rparr> in
             case client_repl_eval eof_text (req_writer cd) (resp_reader cd) source c1 of
               (outs, r, c') \<Rightarrow> (outs, r, (c', ienv', d')))))"

text \<open>
  The in-process evaluator, with the number the client would give the request; where one of the
  evaluation's frames would not fit the wire it does not return, so that nothing is claimed there.
\<close>

definition frames_fit ::
  "codecs \<Rightarrow> u64 \<Rightarrow> rstr \<Rightarrow> console list \<Rightarrow> outcome \<Rightarrow> bool" where
  "frames_fit cd rid source outs outcome \<longleftrightarrow>
     frame_ok (req_writer cd) (req_reader cd) (Eval rid source False) \<and>
     list_all (frame_ok (resp_writer cd) (resp_reader cd))
       (map (\<lambda>x. Display rid (stdout_text x)) outs @ [EvalResult rid outcome])"

definition fitting_eval ::
  "('e, 'cfg, 'ib, 'l) engine \<Rightarrow> codecs \<Rightarrow> (u64 \<times> ('e, 'cfg, 'ib, 'l) world) repl_eval" where
  "fitting_eval eng cd source st =
     (case st of (rid, w) \<Rightarrow>
       (case world_eval eng source w of
          (outs, Some outcome, w') \<Rightarrow>
            if frames_fit cd rid source outs outcome then (outs, Some outcome, (rid + 1, w'))
            else ([], None, st)
        | _ \<Rightarrow> ([], None, st)))"

definition linked ::
  "('e, 'cfg, 'ib, 'l) engine \<Rightarrow> client \<times> 'e option \<times> ('e, 'cfg, 'ib, 'l) daemon \<Rightarrow>
     u64 \<times> ('e, 'cfg, 'ib, 'l) world \<Rightarrow> bool" where
  "linked eng st tt \<longleftrightarrow>
     (case (st, tt) of ((c, ienv, d), (rid, (env, ctx))) \<Rightarrow>
        sink_blind eng \<and> cl_next_id c = rid \<and> \<not> cl_isolated c \<and> incoming (cl_stream c) = [] \<and>
        ending (cl_stream c) = StillOpen \<and> room (cl_stream c) = None \<and>
        d_env d = env \<and> d_ctx d = ctx \<and> display_sink ctx = None)"

text \<open>What is compared of the console: everything on either stream but newlines, which the client
  adds where a display ended in the middle of a line.\<close>

definition look :: "console list \<Rightarrow> (bool \<times> rchar) list" where
  "look outs = concat (map (\<lambda>x. case x of
      StdOut t \<Rightarrow> map (Pair True) (filter (\<lambda>ch. ch \<noteq> newline) t)
    | StdErr t \<Rightarrow> map (Pair False) (filter (\<lambda>ch. ch \<noteq> newline) t)) outs)"

lemma look_append: "look (xs @ ys) = look xs @ look ys"
  by (simp add: look_def)

lemma look_println_Nil [simp]: "look [println []] = []"
  by (simp add: look_def println_def)

section \<open>The two backends fulfil the contract\<close>

lemma own_texts_display: "own_texts rid (map (Display rid) texts) = texts"
  by (induction texts) simp_all

lemma client_eval_sends:
  assumes "frame_ok req_enc req_dec (Eval (cl_next_id c) source (cl_isolated c))"
    and "incoming (cl_stream c) = []" and "ending (cl_stream c) = StillOpen" and "room (cl_stream c) = None"
  shows "outgoing (cl_stream (snd (snd (client_eval req_enc resp_dec source c)))) =
    outgoing (cl_stream c) @ frame_bytes req_enc (Eval (cl_next_id c) source (cl_isolated c))"
  using write_frame_ok [OF assms(1,4)] assms(2,3)
  by (simp add: client_eval_def Let_def await_result.simps read_frame_empty)

lemma handle_loop_one:
  assumes "frame_ok req_enc req_dec (Eval rid source False)"
    and "eval_request eng conn rid source False ienv d = (map (ToSink conn rid) texts, outcome, ienv, d')"
  shows "handle_loop eng req_dec conn (wire (frame_bytes req_enc (Eval rid source False))) ienv d =
    (map (Display rid) texts @ [EvalResult rid outcome], ienv, d', ConnWaiting)"
proof -
  have "read_frame req_dec (wire (frame_bytes req_enc (Eval rid source False))) =
      FrameGot (Eval rid source False) (wire [])"
    by (subst read_frame_written [OF assms(1), where rest = "[]"]) (simp_all add: wire_def)
  moreover have "read_frame req_dec (wire []) = FramePending"
    by (simp add: read_frame_empty wire_def)
  ultimately show ?thesis
    using assms(2)
    by (simp add: handle_loop.simps [of _ _ _ "wire (frame_bytes req_enc (Eval rid source False))"]
        handle_loop.simps [of _ _ _ "wire []"] handle_request_def display_responses_own)
qed

lemma client_repl_eval_frames:
  assumes "frame_ok req_enc req_dec (Eval (cl_next_id c) source False)" and "\<not> cl_isolated c"
    and "list_all (frame_ok resp_enc resp_dec) (map (Display (cl_next_id c)) texts @ [EvalResult (cl_next_id c) out])"
    and "room (cl_stream c) = None"
    and "incoming (cl_stream c) =
      concat (map (frame_bytes resp_enc) (map (Display (cl_next_id c)) texts @ [EvalResult (cl_next_id c) out]))"
  shows "\<exists>outs c'. client_repl_eval eof_text req_enc resp_dec source c = (outs, Some out, c') \<and>
    look outs = look (map StdOut texts) \<and> cl_next_id c' = cl_next_id c + 1 \<and> \<not> cl_isolated c' \<and>
    incoming (cl_stream c') = [] \<and> ending (cl_stream c') = ending (cl_stream c) \<and> room (cl_stream c') = None"
proof -
  have "client_eval req_enc resp_dec source c =
    (map StdOut texts, Returned (Ok out),
     c\<lparr>cl_next_id := cl_next_id c + 1, cl_dangling := foldl dangles False texts,
       cl_stream := (cl_stream c)\<lparr>incoming := [],
         outgoing := outgoing (cl_stream c) @ frame_bytes req_enc (Eval (cl_next_id c) source False)\<rparr>\<rparr>)"
    using client_eval_frames [of req_enc req_dec c source resp_enc resp_dec "map (Display (cl_next_id c)) texts" out "[]"] assms
    by (simp add: own_texts_display list_all_iff)
  with assms show ?thesis
    by (simp add: client_repl_eval_def Let_def look_append)
qed

lemma linked_same_outcome:
  assumes rel: "linked eng st tt" and fit: "fitting_eval eng cd source tt = (outs', Some r, tt')"
  shows "\<exists>outs st'. linked_eval eof_text eng cd conn source st = (outs, Some r, st') \<and>
    look outs = look outs' \<and> linked eng st' tt'"
proof -
  obtain c ienv d where st: "st = (c, ienv, d)" by (metis prod_cases3)
  obtain rid env ctx where tt: "tt = (rid, env, ctx)" by (metis prod_cases3)
  from rel have R: "sink_blind eng" "cl_next_id c = rid" "\<not> cl_isolated c" "incoming (cl_stream c) = []"
      "ending (cl_stream c) = StillOpen" "room (cl_stream c) = None" "d_env d = env" "d_ctx d = ctx"
      "display_sink ctx = None"
    by (simp_all add: linked_def st tt)
  from fit obtain env' ctx' where w: "world_eval eng source (env, ctx) = (outs', Some r, (env', ctx'))"
    and fits: "frames_fit cd rid source outs' r" and tt': "tt' = (rid + 1, env', ctx')"
    by (auto simp: fitting_eval_def tt split: prod.splits option.splits if_splits)
  have "world_eval eng source (d_env d, d_ctx d) = (outs', Some r, (env', ctx'))"
    using w R by simp
  from eval_request_local [OF R(1) _ this, of conn rid ienv] R obtain texts where
    texts: "outs' = map StdOut texts" and sink: "display_sink ctx' = None"
    and req: "eval_request eng conn rid source False ienv d =
      (map (ToSink conn rid) texts, r, ienv, d\<lparr>d_env := env', d_ctx := ctx'\<rparr>)"
    by auto
  have ok: "frame_ok (req_writer cd) (req_reader cd) (Eval rid source False)"
    and oks: "list_all (frame_ok (resp_writer cd) (resp_reader cd)) (map (Display rid) texts @ [EvalResult rid r])"
    using fits by (simp_all add: frames_fit_def texts comp_def)
  have sent: "drop (length (outgoing (cl_stream c)))
      (outgoing (cl_stream (snd (snd (client_eval (req_writer cd) (resp_reader cd) source c))))) =
      frame_bytes (req_writer cd) (Eval rid source False)"
    using client_eval_sends [of "req_writer cd" "req_reader cd" c source "resp_reader cd"] ok R by simp
  have answer: "outgoing (writer_task (resp_writer cd) (map (Display rid) texts @ [EvalResult rid r]) (wire [])) =
      concat (map (frame_bytes (resp_writer cd)) (map (Display rid) texts @ [EvalResult rid r]))"
    using writer_task_frames [OF oks, of "wire []"] by (simp add: wire_def)
  let ?c1 = "c\<lparr>cl_stream := (cl_stream c)\<lparr>incoming :=
      concat (map (frame_bytes (resp_writer cd)) (map (Display rid) texts @ [EvalResult rid r]))\<rparr>\<rparr>"
  obtain outs c' where c': "client_repl_eval eof_text (req_writer cd) (resp_reader cd) source ?c1 = (outs, Some r, c')"
      "look outs = look (map StdOut texts)" "cl_next_id c' = rid + 1" "\<not> cl_isolated c'"
      "incoming (cl_stream c') = []" "ending (cl_stream c') = StillOpen" "room (cl_stream c') = None"
    using client_repl_eval_frames [of "req_writer cd" "req_reader cd" ?c1 source "resp_writer cd" "resp_reader cd" texts r eof_text]
      ok oks R by auto
  have "linked_eval eof_text eng cd conn source st = (outs, Some r, (c', ienv, d\<lparr>d_env := env', d_ctx := ctx'\<rparr>))"
    using handle_loop_one [OF ok req] c'(1) R(4)
    unfolding linked_eval_def st prod.case Let_def sent by (simp only: answer prod.case append_Nil)
  moreover have "linked eng (c', ienv, d\<lparr>d_env := env', d_ctx := ctx'\<rparr>) tt'"
    using c' R(1) sink by (simp add: linked_def tt')
  ultimately show ?thesis using c'(2) texts by blast
qed

interpretation linked_session: backend_contract "linked_eval eof_text eng cd conn" "fitting_eval eng cd" "linked eng" look
  for eof_text :: rstr and eng :: "('e, 'cfg, 'ib, 'l) engine" and cd :: codecs and conn :: nat
  by unfold_locales (fact look_append, rule linked_same_outcome)

text \<open>
  C9.  A REPL session through the daemon is the session the in-process REPL gives: for an evaluator
  that leaves the display sink alone and evaluations whose frames fit the wire, whatever is typed,
  both end in the same flow with the same buffer, depth and history, show the same text but for
  newlines, and the daemon's environment and context are those of the in-process evaluator.
\<close>

theorem daemon_session_is_local_session:
  assumes "sink_blind eng" and "display_sink (d_ctx d) = None" and "cl_next_id c = rid" and "\<not> cl_isolated c"
    and "incoming (cl_stream c) = []" and "ending (cl_stream c) = StillOpen" and "room (cl_stream c) = None"
    and "repl_loop sc (fitting_eval eng cd) es (repl_start loaded (rid, (d_env d, d_ctx d))) = (outs', tt, fl)"
    and "fl \<noteq> Blocked"
  shows "\<exists>outs st. repl_loop sc (linked_eval eof_text eng cd conn) es (repl_start loaded (c, ienv, d)) = (outs, st, fl) \<and>
    look outs = look outs' \<and> buffer st = buffer tt \<and> depth st = depth tt \<and> history st = history tt \<and>
    d_env (snd (snd (backend st))) = fst (snd (backend tt)) \<and>
    d_ctx (snd (snd (backend st))) = snd (snd (backend tt))"
proof -
  have "linked_session.same eng (repl_start loaded (c, ienv, d)) (repl_start loaded (rid, (d_env d, d_ctx d)))"
    using assms(1-7) by (simp add: linked_session.same_def linked_def repl_start_def)
  from linked_session.loop_same [OF this assms(8,9), of eof_text conn] show ?thesis
    by (fastforce simp: linked_session.same_def linked_def split: prod.splits)
qed

text \<open>One line typed at a fresh client of the example daemon.\<close>

definition sample_codecs :: codecs where
  "sample_codecs =
     \<lparr>req_writer = table_enc [(Eval 1 (lit ''x'') False, [2])],
      req_reader = table_dec [(Eval 1 (lit ''x'') False, [2])],
      resp_writer = table_enc [(Display 1 (lit ''x''), [2, 2]), (EvalResult 1 (Ok (Some (lit ''x''))), [3])],
      resp_reader = table_dec [(Display 1 (lit ''x''), [2, 2]), (EvalResult 1 (Ok (Some (lit ''x''))), [3])]\<rparr>"

definition sample_fresh :: client where
  "sample_fresh = \<lparr>cl_stream = wire [], cl_next_id = 1, cl_isolated = False, cl_dangling = False\<rparr>"

lemma sample_sink_blind: "sink_blind sample_engine"
  by (auto simp: sink_blind_def sample_engine_def)

lemma sample_line_x:
  "\<not> is_quit_line [120]" "\<not> is_note_line [120]" "trim [120, newline] = [120]" "trim [120] = [120]"
  by (simp_all add: is_quit_line_def is_note_line_def trim_def trim_start_def trim_end_def
      is_whitespace_def starts_with_def newline_def)

lemma sample_local_session:
  "repl_loop id (fitting_eval sample_engine sample_codecs) [Line (lit ''x''), Eof]
     (repl_start [] (1, (d_env sample_daemon, d_ctx sample_daemon))) =
   ([StdOut (lit ''x''), println (lit ''x'')],
    (repl_start [] (2, ([[120], [7]], d_ctx sample_daemon)))\<lparr>history := [lit ''x'']\<rparr>, Break)"
proof -
  have "world_eval sample_engine [120] ([[7]], d_ctx sample_daemon) =
      ([StdOut [120]], Some (Ok (Some [120])), ([[120], [7]], d_ctx sample_daemon))"
    by (simp add: world_eval_def local_eval_def eval_line_def world_source_def sample_engine_def
        render_result_def)
  moreover have "frames_fit sample_codecs 1 [120] [StdOut [120]] (Ok (Some [120]))"
    by (simp add: frames_fit_def frame_ok_def sample_codecs_def table_enc_def table_dec_def)
  ultimately have "fitting_eval sample_engine sample_codecs [120] (1, ([[7]], d_ctx sample_daemon)) =
      ([StdOut [120]], Some (Ok (Some [120])), (2, ([[120], [7]], d_ctx sample_daemon)))"
    by (simp add: fitting_eval_def)
  moreover have "d_env sample_daemon = [[7]]" by (simp add: sample_daemon_def)
  ultimately show ?thesis
    by (simp add: repl_step_def repl_line_def submit_def repl_start_def sample_line_x Let_def)
qed

theorem daemon_session_is_local_session_witness:
  "\<exists>outs st. repl_loop id (linked_eval [] sample_engine sample_codecs 0) [Line (lit ''x''), Eof]
      (repl_start [] (sample_fresh, None, sample_daemon)) = (outs, st, Break) \<and>
    d_env (snd (snd (backend st))) = [[120], [7]]"
proof -
  have d: "display_sink (d_ctx sample_daemon) = None"
    by (simp add: sample_daemon_def cli_ctx_new_def)
  have fresh: "cl_next_id sample_fresh = 1" "\<not> cl_isolated sample_fresh" "incoming (cl_stream sample_fresh) = []"
      "ending (cl_stream sample_fresh) = StillOpen" "room (cl_stream sample_fresh) = None"
    by (simp_all add: sample_fresh_def wire_def)
  from daemon_session_is_local_session [OF sample_sink_blind d fresh sample_local_session, of "[]" 0 None]
  show ?thesis by (auto simp: repl_start_def simp del: repl_loop.simps)
qed

section \<open>Scripts\<close>



end
