(* ===== verification/Zs_Endings.thy ===== *)
theory Zs_Endings
  imports Zs_Frontend
begin

text \<open>
  How things end: on a connection that has ended every loop over it returns (the daemon's request
  loop, the client's response loops, the frontend as a whole), and what a client does on a
  connection that is lost or out of step, which it never leaves.
\<close>

section \<open>Streams that have ended\<close>

definition ended :: "ipc_stream \<Rightarrow> bool" where
  "ended s \<longleftrightarrow> ending s \<noteq> StillOpen"

named_theorems stream_kept

lemma read_frame_not_pending: "ended s \<Longrightarrow> read_frame from_reader s \<noteq> FramePending"
  by (auto simp: ended_def read_frame_def read_exact_def Let_def split: stream_end.splits sum.splits)

lemma read_frame_keeps [stream_kept]:
  "read_frame from_reader s = FrameGot m s' \<Longrightarrow> ended s' = ended s \<and> room s' = room s"
  by (auto simp: ended_def read_frame_Got_iff Let_def)

lemma read_frame_rest_keeps [stream_kept]:
  "ended (read_frame_rest s) = ended s \<and> room (read_frame_rest s) = room s"
  by (auto simp: ended_def read_frame_rest_def read_exact_Got_iff split: read_exact_outcome.splits)

lemma write_all_keeps [stream_kept]:
  "write_all bs s = (s', r) \<Longrightarrow> ended s' = ended s \<and> incoming s' = incoming s \<and> (room s = None \<longrightarrow> room s' = None)"
  by (auto simp: ended_def write_all_def split: option.splits if_splits)

lemma write_frame_keeps [stream_kept]:
  assumes "write_frame into_writer m s = (s', r)"
  shows "ended s' = ended s \<and> incoming s' = incoming s \<and> (room s = None \<longrightarrow> room s' = None)"
  using assms
  by (auto simp: write_frame_def split: sum.splits if_splits prod.splits dest!: write_all_keeps)

section \<open>Every loop over an ended stream returns\<close>

lemma handle_loop_finishes:
  "ended s \<Longrightarrow> \<exists>rs ienv' d' r. handle_loop eng from_reader conn s ienv d = (rs, ienv', d', ConnFinished r)"
proof (induction eng from_reader conn s ienv d rule: handle_loop.induct)
  case (1 eng from_reader conn s ienv d)
  show ?case
  proof (cases "read_frame from_reader s")
    case (FrameGot req s')
    obtain rs ienv' d' go where h: "handle_request eng conn req ienv d = (rs, ienv', d', go)"
      by (metis prod_cases4)
    have "ended s'" using "1.prems" read_frame_keeps [OF FrameGot] by simp
    then have "go \<Longrightarrow> \<exists>rs' ienv'' d'' r.
        handle_loop eng from_reader conn s' ienv' d' = (rs', ienv'', d'', ConnFinished r)"
      using "1.IH" [OF FrameGot h [symmetric]] by simp
    then show ?thesis
      using FrameGot h by (cases go) (auto simp: handle_loop.simps [of eng from_reader conn s])
  qed (use read_frame_not_pending [OF "1.prems"] in \<open>auto simp: handle_loop.simps\<close>)
qed

lemma read_until_returns: "ended s \<Longrightarrow> read_until from_reader matches s \<noteq> UntilPending"
proof (induction from_reader matches s rule: read_until.induct)
  case (1 from_reader matches s)
  then show ?case
    using read_frame_not_pending [OF "1.prems", of from_reader]
    by (subst read_until.simps) (auto split: read_outcome.splits dest: read_frame_keeps)
qed

lemma await_result_returns:
  "ended s \<Longrightarrow> \<exists>outs s' dangling' r.
     await_result from_reader rid s dangling = (outs, s', dangling', Returned r) \<and> ended s' \<and> room s' = room s"
proof (induction "length (incoming s)" arbitrary: s dangling rule: less_induct)
  case less
  show ?case
  proof (cases "read_frame from_reader s")
    case (FrameGot m s1)
    note kept = read_frame_keeps [OF FrameGot]
    show ?thesis
    proof (cases "own_result rid m")
      case True
      with FrameGot kept less.prems show ?thesis
        by (cases m) (auto simp: await_result.simps [of from_reader rid s])
    next
      case False
      from less.hyps [OF read_frame_shrinks [OF FrameGot]] kept less.prems
      obtain outs s' dangling' r where
        "await_result from_reader rid s1 (foldl dangles dangling (own_text rid m)) = (outs, s', dangling', Returned r)"
        "ended s'" "room s' = room s" by metis
      with await_result_other [OF FrameGot False, of dangling] show ?thesis by simp
    qed
  qed (use read_frame_not_pending [OF less.prems] read_frame_rest_keeps [of s] less.prems in
      \<open>auto simp: await_result.simps [of from_reader rid s]\<close>)
qed

lemma client_eval_returns:
  assumes "ended (cl_stream c)"
  shows "\<exists>outs r c'. client_eval into_writer from_reader source c = (outs, Returned r, c') \<and> ended (cl_stream c')"
proof -
  obtain s w where sent: "write_frame into_writer (Eval (cl_next_id c) source (cl_isolated c)) (cl_stream c) = (s, w)"
    by fastforce
  then have "ended s" using assms write_frame_keeps by metis
  from await_result_returns [OF this, of from_reader "cl_next_id c" False] sent show ?thesis
    using \<open>ended s\<close> by (cases w) (auto simp: client_eval_def Let_def)
qed


section \<open>Backends that always return\<close>

text \<open>
  What the loop needs of its evaluation backend in order to end when the user ends it: in a class
  of backend states that evaluations do not leave, every evaluation returns.
\<close>

locale returning_backend =
  fixes ev :: "'s repl_eval"
    and live :: "'s \<Rightarrow> bool"
  assumes returns: "live s \<Longrightarrow> ev source s = (outs, r, s') \<Longrightarrow> r \<noteq> None \<and> live s'"
begin

lemma submit_goes_on:
  "live (backend st) \<Longrightarrow> submit ev st = (outs, st', fl) \<Longrightarrow> fl = Continue \<and> live (backend st')"
  by (auto simp: submit_def Let_def dest: returns split: if_splits prod.splits option.splits)

lemma step_returns:
  assumes "live (backend st)" and "repl_step strip_comments ev e st = (outs, st', fl)"
  shows "fl \<noteq> Blocked \<and> live (backend st') \<and> (e = Eof \<longrightarrow> fl = Break)"
proof (cases e)
  case (Line l)
  with assms show ?thesis
    by (auto simp: repl_step_def repl_line_def Let_def split: if_splits dest: submit_goes_on [rotated])
qed (use assms in \<open>auto simp: repl_step_def split: if_splits\<close>)

lemma loop_breaks:
  "live (backend st) \<Longrightarrow> Eof \<in> set es \<Longrightarrow> snd (snd (repl_loop strip_comments ev es st)) = Break"
proof (induction es arbitrary: st)
  case (Cons e es)
  obtain outs st' fl where e: "repl_step strip_comments ev e st = (outs, st', fl)" by (metis prod_cases3)
  from step_returns [OF Cons.prems(1) e] have fl: "fl \<noteq> Blocked" "live (backend st')" "e = Eof \<longrightarrow> fl = Break"
    by auto
  show ?case
  proof (cases fl)
    case Continue
    with fl(3) Cons.prems(2) have "Eof \<in> set es" by auto
    with Cons.IH [OF fl(2)] Continue e show ?thesis by (auto split: prod.splits)
  qed (use fl(1) e in auto)
qed simp

text \<open>The loop returns when the user ends the input.\<close>

lemma run_returns:
  assumes "live s" and "Eof \<in> set es"
  shows "rep_result (run_repl strip_comments ev history_path loaded editor es s) \<noteq> None"
proof -
  have "snd (snd (repl_loop strip_comments ev es (repl_start loaded s))) = Break"
    using assms by (intro loop_breaks) (simp_all add: repl_start_def)
  then show ?thesis by (auto simp: run_repl_def split: sum.splits prod.splits flow.splits)
qed

end

interpretation local_backend: returning_backend "local_eval display dot_eval eval_source" "\<lambda>_. True"
  for display dot_eval eval_source
  by unfold_locales (auto simp: local_eval_def split: prod.splits)

interpretation ended_backend: returning_backend "client_repl_eval eof_text into_writer from_reader"
  "\<lambda>c. ended (cl_stream c)"
  for eof_text into_writer from_reader
proof
  fix source s outs r s'
  assume "ended (cl_stream s)" and ev: "client_repl_eval eof_text into_writer from_reader source s = (outs, r, s')"
  from client_eval_returns [OF this(1), of into_writer from_reader source] ev
  show "r \<noteq> None \<and> ended (cl_stream s')"
    by (auto simp: client_repl_eval_def Let_def split: if_splits)
qed

text \<open>
  C19.  The frontend terminates when the user ends the input and the daemon is gone: with a
  connection that has ended, whatever arrived on it before, a script run returns, and a REPL whose
  input ends returns, so the frontend never hangs on a dead daemon.
\<close>

theorem frontend_returns:
  assumes "\<And>c. connected = Returned (Ok c) \<Longrightarrow> ending (cl_stream c) \<noteq> StillOpen"
    and "connected \<noteq> Waiting" and "Eof \<in> set es"
  shows "snd (client_run eof_text into_writer from_reader read_to_string
    (\<lambda>ev. run_repl strip_comments ev history_path loaded editor es) connected script) \<noteq> Waiting"
proof (cases connected)
  case (Returned r)
  show ?thesis
  proof (cases r)
    case (Inr c)
    then have e: "ended (cl_stream c)" using assms(1) Returned by (simp add: ended_def)
    show ?thesis
    proof (cases script)
      case None
      have "rep_result (run_repl strip_comments (client_repl_eval eof_text into_writer from_reader)
          history_path loaded editor es c) \<noteq> None"
        by (rule ended_backend.run_returns [OF e assms(3)])
      with None Returned Inr show ?thesis
        by (auto simp: client_run_def repl_awaited_def split: option.splits sum.splits)
    next
      case (Some path)
      show ?thesis
      proof (cases "read_to_string path")
        case (Inr raw)
        from client_eval_returns [OF e, of into_writer from_reader "strip_shebang raw"]
        obtain outs res c' where "client_eval into_writer from_reader (strip_shebang raw) c = (outs, Returned res, c')"
          by auto
        with Inr Some Returned \<open>r = Ok c\<close> show ?thesis
          by (auto simp: client_run_def run_script_def split: sum.splits)
      qed (use Some Returned Inr in \<open>simp add: client_run_def run_script_def\<close>)
    qed
  qed (use Returned in \<open>simp add: client_run_def\<close>)
qed (use assms(2) in simp)


definition gone_client :: client where
  "gone_client = sample_client\<lparr>cl_stream := (cl_stream sample_client)\<lparr>incoming := [], ending := Closed\<rparr>\<rparr>"


theorem frontend_returns_witness:
  "snd (client_run [] (table_enc sample_req_codec) (table_dec sample_resp_codec) (\<lambda>_. Ok [])
     (\<lambda>ev. run_repl (\<lambda>l. l) ev None [] (Ok ()) [Line (lit ''x''), Eof]) (Returned (Ok gone_client)) None) \<noteq> Waiting"
  by (rule frontend_returns) (auto simp: gone_client_def)

section \<open>A client that lost its daemon\<close>

primrec eval_each :: "'s repl_eval \<Rightarrow> rstr list \<Rightarrow> 's \<Rightarrow> outcome option list" where
  "eval_each ev [] s = []"
| "eval_each ev (source # sources) s = (case ev source s of (outs, r, s') \<Rightarrow> r # eval_each ev sources s')"

definition ipc_failure :: "rstr \<Rightarrow> outcome option" where
  "ipc_failure msg = Some (Err (lit ''ipc error: '' @ msg))"

text \<open>The peer has closed, and less than a frame's header is left to read.\<close>

definition lost :: "client \<Rightarrow> bool" where
  "lost c \<longleftrightarrow> ended (cl_stream c) \<and> length (incoming (cl_stream c)) < 4"

lemma lost_eval:
  assumes "lost c" and "client_repl_eval eof_text into_writer from_reader source c = (outs, r, c')"
  shows "(\<exists>msg. r = ipc_failure msg) \<and> lost c'"
proof -
  obtain s w where sent: "write_frame into_writer (Eval (cl_next_id c) source (cl_isolated c)) (cl_stream c) = (s, w)"
    by fastforce
  from write_frame_keeps [OF this] assms(1) have s: "ended s" "length (incoming s) < 4"
    by (auto simp: lost_def)
  then have short: "read_exact 4 s = ExactEof \<or> (\<exists>e. read_exact 4 s = ExactIo e)"
    by (auto simp: ended_def read_exact_short split: stream_end.splits)
  then have rest: "read_frame_rest s = s\<lparr>incoming := []\<rparr>"
    and fails: "read_frame from_reader s = FrameNone \<or> (\<exists>e. read_frame from_reader s = FrameErr e)"
    by (auto simp: read_frame_rest_def read_frame_def)
  have "\<exists>e. await_result from_reader (cl_next_id c) s False = ([], s\<lparr>incoming := []\<rparr>, False, Returned (Err e))"
    using fails rest by (auto simp: await_result.simps [of from_reader _ s])
  with sent s have "\<exists>e c1. client_eval into_writer from_reader source c = ([], Returned (Err e), c1) \<and>
      \<not> cl_dangling c1 \<and> ended (cl_stream c1) \<and> length (incoming (cl_stream c1)) < 4"
    by (cases w) (auto simp: client_eval_def Let_def ended_def)
  with assms(2) show ?thesis
    by (auto simp: client_repl_eval_def Let_def ipc_failure_def lost_def)
qed

text \<open>
  The REPL never leaves a daemon it has lost: once the connection has ended, every further
  evaluation, however many are submitted, is an ipc error, and the client never connects again.
\<close>

lemma lost_client_only_fails:
  assumes "lost c" and "r \<in> set (eval_each (client_repl_eval eof_text into_writer from_reader) sources c)"
  shows "\<exists>msg. r = ipc_failure msg"
  using assms
proof (induction sources arbitrary: c)
  case (Cons source sources)
  obtain outs r' c' where e: "client_repl_eval eof_text into_writer from_reader source c = (outs, r', c')"
    by (metis prod_cases3)
  from lost_eval [OF Cons.prems(1) e] Cons.IH [of c'] Cons.prems(2) e show ?case by auto
qed simp

section \<open>A client that is out of step\<close>

lemma oversized_eval:
  assumes "incoming (cl_stream c) = to_be_bytes len @ rest" and "max_frame_len < len" and "room (cl_stream c) = None"
    and "into_writer (Eval (cl_next_id c) source (cl_isolated c)) = Ok buf" and "length buf < 2 ^ 32"
  shows "\<exists>c'. client_repl_eval eof_text into_writer from_reader source c =
      ([], ipc_failure (show_ipc_error eof_text (FrameTooLarge len)), c') \<and>
    incoming (cl_stream c') = rest \<and> room (cl_stream c') = None \<and> cl_isolated c' = cl_isolated c"
proof -
  let ?s = "(cl_stream c)\<lparr>outgoing := outgoing (cl_stream c) @
      frame_bytes into_writer (Eval (cl_next_id c) source (cl_isolated c))\<rparr>"
  have sent: "write_frame into_writer (Eval (cl_next_id c) source (cl_isolated c)) (cl_stream c) = (?s, Ok ())"
    by (rule write_frame_unlimited [where buf = buf]) (fact assms)+
  have inc: "incoming ?s = to_be_bytes len @ rest" using assms(1) by simp
  have "read_frame from_reader ?s = FrameErr (FrameTooLarge len)"
    using assms(2) by (simp add: read_frame_header [OF inc])
  moreover have "read_frame_rest ?s = ?s\<lparr>incoming := rest\<rparr>"
    using assms(2) by (simp add: read_frame_rest_def read_exact_append [OF _ inc])
  ultimately have "await_result from_reader (cl_next_id c) ?s False =
      ([], ?s\<lparr>incoming := rest\<rparr>, False, Returned (Err (ClientIpc (FrameTooLarge len))))"
    by (simp add: await_result.simps)
  with sent assms(3) show ?thesis
    by (simp add: client_repl_eval_def client_eval_def Let_def ipc_failure_def)
qed

text \<open>
  C30.  A reply above 16 MiB puts the client out of step for good: the refused frame's body stays in
  the stream, so the next evaluations read their frame headers out of it; as long as those are too
  large as well, which four bytes of text always are, every evaluation fails in the same way,
  whatever the daemon has answered.
\<close>

theorem oversized_reply_desynchronises:
  assumes "resp_writer m = Ok body" and "16 * 1024 * 1024 < length body" and "length body < 2 ^ 32"
    and "body = concat (map to_be_bytes ws) @ tail" and "\<forall>w \<in> set ws. max_frame_len < w"
    and "incoming (cl_stream c) = frame_bytes resp_writer m @ later" and "room (cl_stream c) = None"
    and "\<forall>rid source iso. \<exists>buf. into_writer (Eval rid source iso) = Ok buf \<and> length buf < 2 ^ 32"
    and "length sources \<le> Suc (length ws)"
  shows "eval_each (client_repl_eval eof_text into_writer from_reader) sources c =
    map (\<lambda>w. ipc_failure (show_ipc_error eof_text (FrameTooLarge w)))
      (take (length sources) (of_nat (length body) # ws))"
proof -
  have each: "eval_each (client_repl_eval eof_text into_writer from_reader) sources c =
      map (\<lambda>w. ipc_failure (show_ipc_error eof_text (FrameTooLarge w))) (take (length sources) ws')"
    if "incoming (cl_stream c) = concat (map to_be_bytes ws') @ rest" and "room (cl_stream c) = None"
      and "\<forall>w \<in> set ws'. max_frame_len < w" and "length sources \<le> length ws'" for ws' rest c
    using that
  proof (induction sources arbitrary: ws' c)
    case (Cons source sources)
    then obtain w ws'' where ws': "ws' = w # ws''" by (cases ws') auto
    obtain buf where buf: "into_writer (Eval (cl_next_id c) source (cl_isolated c)) = Ok buf" "length buf < 2 ^ 32"
      using assms(8) by blast
    have inc: "incoming (cl_stream c) = to_be_bytes w @ concat (map to_be_bytes ws'') @ rest"
      and big: "max_frame_len < w" using Cons.prems by (simp_all add: ws')
    from oversized_eval [where c = c and source = source and into_writer = into_writer and buf = buf
        and eof_text = eof_text and from_reader = from_reader, OF inc big Cons.prems(2)] buf
    obtain c' where "client_repl_eval eof_text into_writer from_reader source c =
        ([], ipc_failure (show_ipc_error eof_text (FrameTooLarge w)), c')"
      "incoming (cl_stream c') = concat (map to_be_bytes ws'') @ rest" "room (cl_stream c') = None" by blast
    with Cons.IH [of c' ws''] Cons.prems show ?case by (simp add: ws')
  qed simp
  have "max_frame_len < (of_nat (length body) :: u32)"
    using assms(2,3) by (simp add: word_less_nat_alt)
  then show ?thesis
    using assms by (intro each [where rest = "tail @ later"]) (simp_all add: frame_bytes_def)
qed

text \<open>A text of 16777220 letters A, and two evaluations.\<close>

theorem oversized_reply_desynchronises_witness:
  "eval_each (client_repl_eval [] (\<lambda>_. Ok [1]) (\<lambda>_. Err [])) [lit ''x'', lit ''y'']
     (gone_client\<lparr>cl_stream := \<lparr>incoming = frame_bytes (\<lambda>_ :: response. Ok (to_be_bytes 0x41414141 @ replicate 16777216 65)) Pong @ [],
        ending = StillOpen, outgoing = [], room = None\<rparr>\<rparr>)
   = [ipc_failure (show_ipc_error [] (FrameTooLarge 16777220)),
      ipc_failure (show_ipc_error [] (FrameTooLarge 0x41414141))]"
proof -
  let ?body = "to_be_bytes 0x41414141 @ replicate 16777216 65"
  have len: "length ?body = 16777220" by simp
  have "eval_each (client_repl_eval [] (\<lambda>_. Ok [1]) (\<lambda>_. Err [])) [lit ''x'', lit ''y'']
     (gone_client\<lparr>cl_stream := \<lparr>incoming = frame_bytes (\<lambda>_ :: response. Ok ?body) Pong @ [],
        ending = StillOpen, outgoing = [], room = None\<rparr>\<rparr>) =
    map (\<lambda>w. ipc_failure (show_ipc_error [] (FrameTooLarge w)))
      (take (length [lit ''x'', lit ''y'']) (of_nat (length ?body) # [0x41414141]))"
    by (rule oversized_reply_desynchronises [where resp_writer = "\<lambda>_ :: response. Ok ?body" and m = Pong
          and tail = "replicate 16777216 65"]) (simp_all add: max_frame_len_def)
  then show ?thesis by (simp add: len)
qed

end
