(* ===== verification/Zs_Claim.thy ===== *)
theory Zs_Claim
  imports Zs_Prelude
begin

text \<open>
  Several daemon processes and one socket file (\<open>run\<close> and \<open>claim_socket\<close> of \<open>src/src/daemon.rs\<close>,
  the Unix side): every access to the file is one step, and the processes take their steps in any
  order.  Claims made one at a time leave at most one daemon; claims that race do not.
\<close>

section \<open>Processes and the socket file\<close>

text \<open>
  Where a process stands: not begun; it has seen the file exist and will connect; it has asked the
  daemon behind the file to stop and checks whether the file is gone; it will remove the file; it
  has claimed the socket and will bind it; it listens; it has stopped, failed or crashed.
\<close>

datatype claim_phase =
    PStart | PExists | PAsked | PRemove | PClaimed | PListening | PStopped | PFailed | PCrashed

text \<open>The file, when it exists, names the process that bound it.\<close>

record claim_sys =
  cs_file :: "nat option"
  cs_phase :: "nat \<Rightarrow> claim_phase"

text \<open>Connecting succeeds when the process behind the file is listening.\<close>

definition connectable :: "claim_sys \<Rightarrow> bool" where
  "connectable s = (case cs_file s of None \<Rightarrow> False | Some q \<Rightarrow> cs_phase s q = PListening)"

definition goes :: "nat \<Rightarrow> claim_phase \<Rightarrow> claim_sys \<Rightarrow> claim_sys" where
  "goes p ph s = s\<lparr>cs_phase := (cs_phase s)(p := ph)\<rparr>"

inductive claim_step :: "claim_sys \<Rightarrow> claim_sys \<Rightarrow> bool" where
  claim_free: "cs_phase s p = PStart \<Longrightarrow> cs_file s = None \<Longrightarrow> claim_step s (goes p PClaimed s)"
| claim_exists: "cs_phase s p = PStart \<Longrightarrow> cs_file s \<noteq> None \<Longrightarrow> claim_step s (goes p PExists s)"
| claim_asks: "cs_phase s p = PExists \<Longrightarrow> connectable s \<Longrightarrow> claim_step s (goes p PAsked s)"
| claim_no_answer: "cs_phase s p = PExists \<Longrightarrow> \<not> connectable s \<Longrightarrow> claim_step s (goes p PRemove s)"
| claim_released: "cs_phase s p = PAsked \<Longrightarrow> cs_file s = None \<Longrightarrow> claim_step s (goes p PClaimed s)"
| claim_refused: "cs_phase s p = PAsked \<Longrightarrow> connectable s \<Longrightarrow> claim_step s (goes p PFailed s)"
| claim_waited: "cs_phase s p = PAsked \<Longrightarrow> \<not> connectable s \<Longrightarrow> claim_step s (goes p PRemove s)"
| claim_removes: "cs_phase s p = PRemove \<Longrightarrow> cs_file s \<noteq> None \<Longrightarrow>
    claim_step s (goes p PClaimed (s\<lparr>cs_file := None\<rparr>))"
| claim_nothing: "cs_phase s p = PRemove \<Longrightarrow> cs_file s = None \<Longrightarrow> claim_step s (goes p PFailed s)"
| claim_binds: "cs_phase s p = PClaimed \<Longrightarrow> cs_file s = None \<Longrightarrow>
    claim_step s (goes p PListening (s\<lparr>cs_file := Some p\<rparr>))"
| claim_in_use: "cs_phase s p = PClaimed \<Longrightarrow> cs_file s \<noteq> None \<Longrightarrow> claim_step s (goes p PFailed s)"
| claim_stops: "cs_phase s p = PListening \<Longrightarrow> claim_step s (goes p PStopped (s\<lparr>cs_file := None\<rparr>))"
| claim_crashes: "cs_phase s p = PListening \<Longrightarrow> claim_step s (goes p PCrashed s)"

inductive_cases claim_stepE: "claim_step s t"

definition claim_init :: "claim_sys \<Rightarrow> bool" where
  "claim_init s \<longleftrightarrow> cs_phase s = (\<lambda>_. PStart) \<and> cs_file s = None"

section \<open>Claims one at a time\<close>

fun claiming :: "claim_phase \<Rightarrow> bool" where
  "claiming PExists = True"
| "claiming PAsked = True"
| "claiming PRemove = True"
| "claiming PClaimed = True"
| "claiming _ = False"

text \<open>A step after which at most one process is between its first look at the file and its bind.\<close>

definition lone_step :: "claim_sys \<Rightarrow> claim_sys \<Rightarrow> bool" where
  "lone_step s t \<longleftrightarrow> claim_step s t \<and>
     (\<forall>p q. claiming (cs_phase t p) \<and> claiming (cs_phase t q) \<longrightarrow> p = q)"

definition lone_inv :: "claim_sys \<Rightarrow> bool" where
  "lone_inv s \<longleftrightarrow>
     (\<forall>p. cs_phase s p = PListening \<longrightarrow> cs_file s = Some p) \<and>
     (\<forall>p. cs_phase s p = PRemove \<or> cs_phase s p = PClaimed \<longrightarrow> \<not> connectable s) \<and>
     (\<forall>p q. claiming (cs_phase s p) \<and> claiming (cs_phase s q) \<longrightarrow> p = q)"

lemma goes_simps [simp]:
  "cs_phase (goes p ph s) = (cs_phase s)(p := ph)"
  "cs_file (goes p ph s) = cs_file s"
  by (simp_all add: goes_def)

lemma lone_invD:
  assumes "lone_inv s"
  shows "cs_phase s p = PListening \<Longrightarrow> cs_file s = Some p"
    and "cs_phase s p = PRemove \<or> cs_phase s p = PClaimed \<Longrightarrow> cs_phase s q \<noteq> PListening"
    and "claiming (cs_phase s p) \<Longrightarrow> claiming (cs_phase s q) \<Longrightarrow> p = q"
    and "cs_phase s p = PListening \<Longrightarrow> cs_phase s q = PListening \<Longrightarrow> p = q"
proof -
  show listening: "cs_phase s p = PListening \<Longrightarrow> cs_file s = Some p" for p
    using assms by (simp add: lone_inv_def)
  show "cs_phase s p = PListening \<Longrightarrow> cs_phase s q = PListening \<Longrightarrow> p = q"
    using listening [of p] listening [of q] by simp
qed (use assms in \<open>auto simp: lone_inv_def connectable_def split: option.splits\<close>)

lemma lone_invI:
  assumes "\<And>p. cs_phase s p = PListening \<Longrightarrow> cs_file s = Some p"
    and "\<And>p q. cs_phase s p = PRemove \<or> cs_phase s p = PClaimed \<Longrightarrow> cs_phase s q \<noteq> PListening"
    and "\<And>p q. claiming (cs_phase s p) \<Longrightarrow> claiming (cs_phase s q) \<Longrightarrow> p = q"
  shows "lone_inv s"
  using assms by (auto simp: lone_inv_def connectable_def split: option.splits)

lemma not_connectable: "\<not> connectable s \<Longrightarrow> lone_inv s \<Longrightarrow> cs_phase s q \<noteq> PListening"
  using lone_invD(1) [of s q] by (auto simp: connectable_def)

lemma lone_inv_step: "lone_step s t \<Longrightarrow> lone_inv s \<Longrightarrow> lone_inv t"
proof -
  assume "lone_step s t" and inv: "lone_inv s"
  then have step: "claim_step s t"
    and lone: "\<And>p q. claiming (cs_phase t p) \<Longrightarrow> claiming (cs_phase t q) \<Longrightarrow> p = q"
    by (auto simp: lone_step_def)
  note D = lone_invD [OF inv]
  show ?thesis
  proof (rule lone_invI)
    fix p
    assume l: "cs_phase t p = PListening"
    have others: "cs_phase s q \<noteq> PListening" if "cs_phase s p = PListening" "q \<noteq> p" for q
      using D(4) [of p q] that by blast
    show "cs_file t = Some p"
      using step l
      by (cases rule: claim_step.cases) (use D(1) [of p] D(2) [of _ p] others in \<open>auto split: if_splits\<close>)
  next
    fix p q
    assume cl: "cs_phase t p = PRemove \<or> cs_phase t p = PClaimed"
    have others: "\<not> claiming (cs_phase s k)" if "claiming (cs_phase s p)" "k \<noteq> p" for k
      using D(3) [of p k] that by blast
    show "cs_phase t q \<noteq> PListening"
      using step cl
      by (cases rule: claim_step.cases)
        (use D(1) [of q] D(2) [of p q] not_connectable [OF _ inv, of q] others [of q] in \<open>auto split: if_splits\<close>)
  qed (rule lone)
qed

interpretation lone: inductive_invariant claim_init lone_step lone_inv
proof
  show "lone_inv s" if "claim_init s" for s
    using that by (simp add: claim_init_def lone_inv_def)
qed (fact lone_inv_step)

text \<open>
  C24.  One daemon at a time: as long as no two processes claim the socket at once, at most one
  process listens, whatever stops or crashes in between, and it is the one the socket file leads to.
\<close>

theorem lone_claims_one_daemon:
  assumes "reachable claim_init lone_step s" and "cs_phase s p = PListening"
  shows "cs_file s = Some p \<and> connectable s \<and> (\<forall>q. cs_phase s q = PListening \<longrightarrow> q = p)"
proof -
  note D = lone_invD [OF lone.always [OF assms(1)]]
  show ?thesis
  proof (intro conjI allI impI)
    show bound: "cs_file s = Some p" by (rule D(1) [OF assms(2)])
    show "connectable s" by (simp add: connectable_def bound assms(2))
    show "q = p" if "cs_phase s q = PListening" for q by (rule D(4) [OF that assms(2)])
  qed
qed

section \<open>Two claims at once\<close>

text \<open>
  C25.  Claims that race leave two daemons: a process that saw the file of a daemon which then
  stopped removes the socket that another process has meanwhile bound, and binds its own; both
  then listen, and the first one cannot be reached any more.  No process crashed.
\<close>

theorem racing_claims_two_daemons:
  assumes "p \<noteq> q" and "r \<noteq> p" and "r \<noteq> q"
  shows "\<exists>s. reachable claim_init claim_step s \<and> cs_phase s p = PListening \<and> cs_phase s q = PListening \<and>
    cs_file s = Some q \<and> (\<forall>k. cs_phase s k \<noteq> PCrashed)"
proof -
  define s0 where "s0 = \<lparr>cs_file = None, cs_phase = \<lambda>_. PStart\<rparr>"
  define s1 where "s1 = goes r PClaimed s0"
  define s2 where "s2 = goes r PListening (s1\<lparr>cs_file := Some r\<rparr>)"
  define s3 where "s3 = goes q PExists s2"
  define s4 where "s4 = goes r PStopped (s3\<lparr>cs_file := None\<rparr>)"
  define s5 where "s5 = goes q PRemove s4"
  define s6 where "s6 = goes p PClaimed s5"
  define s7 where "s7 = goes p PListening (s6\<lparr>cs_file := Some p\<rparr>)"
  define s8 where "s8 = goes q PClaimed (s7\<lparr>cs_file := None\<rparr>)"
  define s9 where "s9 = goes q PListening (s8\<lparr>cs_file := Some q\<rparr>)"
  note defs = s0_def s1_def s2_def s3_def s4_def s5_def s6_def s7_def s8_def s9_def
  have "reachable claim_init claim_step s0"
    by (rule reach_init) (simp add: claim_init_def s0_def)
  moreover have "claim_step s0 s1" unfolding s1_def by (rule claim_free) (simp_all add: s0_def)
  moreover have "claim_step s1 s2" unfolding s2_def by (rule claim_binds) (simp_all add: s1_def s0_def)
  moreover have "claim_step s2 s3"
    unfolding s3_def by (rule claim_exists) (use assms in \<open>simp_all add: s2_def s1_def s0_def\<close>)
  moreover have "claim_step s3 s4"
    unfolding s4_def by (rule claim_stops) (use assms in \<open>simp_all add: s3_def s2_def\<close>)
  moreover have "claim_step s4 s5"
    unfolding s5_def by (rule claim_no_answer) (use assms in \<open>simp_all add: s4_def s3_def connectable_def\<close>)
  moreover have "claim_step s5 s6"
    unfolding s6_def by (rule claim_free) (use assms in \<open>simp_all add: defs\<close>)
  moreover have "claim_step s6 s7"
    unfolding s7_def by (rule claim_binds) (use assms in \<open>simp_all add: defs\<close>)
  moreover have "claim_step s7 s8"
    unfolding s8_def by (rule claim_removes) (use assms in \<open>simp_all add: defs\<close>)
  moreover have "claim_step s8 s9"
    unfolding s9_def by (rule claim_binds) (use assms in \<open>simp_all add: defs\<close>)
  moreover have "cs_phase s9 p = PListening" "cs_phase s9 q = PListening" "cs_file s9 = Some q"
    "cs_phase s9 k \<noteq> PCrashed" for k
    using assms by (simp_all add: defs)
  ultimately show ?thesis by (meson reach_step)
qed

theorem racing_claims_two_daemons_witness:
  "\<exists>s. reachable claim_init claim_step s \<and> cs_phase s 1 = PListening \<and> cs_phase s 2 = PListening"
  using racing_claims_two_daemons [of 1 2 3] by auto

text \<open>A process that binds the socket, and one that then asks it to stop.\<close>

theorem lone_claims_one_daemon_witness:
  "\<exists>s. reachable claim_init lone_step s \<and> cs_phase s 1 = PListening \<and> cs_file s = Some 1"
proof -
  define s0 where "s0 = \<lparr>cs_file = None, cs_phase = \<lambda>_. PStart\<rparr>"
  define s1 where "s1 = goes 1 PClaimed s0"
  define s2 where "s2 = goes 1 PListening (s1\<lparr>cs_file := Some 1\<rparr>)"
  have "reachable claim_init lone_step s0"
    by (rule reach_init) (simp add: claim_init_def s0_def)
  moreover have "claim_step s0 s1" unfolding s1_def by (rule claim_free) (simp_all add: s0_def)
  then have "lone_step s0 s1" by (simp add: lone_step_def s1_def s0_def)
  moreover have "claim_step s1 s2" unfolding s2_def by (rule claim_binds) (simp_all add: s1_def s0_def)
  then have "lone_step s1 s2" by (simp add: lone_step_def s2_def s1_def s0_def)
  ultimately have s2: "reachable claim_init lone_step s2" by (meson reach_step)
  moreover have "cs_phase s2 1 = PListening" by (simp add: s2_def)
  ultimately show ?thesis using lone_claims_one_daemon [OF s2] by blast
qed

end
