(* ===== verification/Zs_Main.thy ===== *)
theory Zs_Main
  imports Zs_Session
begin

text \<open>
  The program's entry point (\<open>src/src/main.rs\<close>): the choice of what to run, loading and migrating
  the secret bundle, the publication of the DID document at start-up and every hour, the start-up
  of a node with its handling of key material, and the two modes that own an endpoint.

  Configuration, the secret bundle's file format, DID documents, IPFS publication, time stamps and
  the hash come from other crates: they are the functions of a record, one of whose values stands
  for the host at one moment.
\<close>

section \<open>The command line\<close>

datatype cmd =
    CmdDaemon "path option"
  | CmdStop
  | CmdReset
  | CmdSave "path option"
  | CmdStandalone "path option"

record cli =
  cli_gen_headless_config :: bool
  cli_cmd :: "cmd option"
  cli_script :: "path option"
  cli_poll_ms :: u64
  cli_isolated :: bool

text \<open>What \<open>main\<close> goes on with; \<open>Panic\<close> is its \<open>unreachable!()\<close>.\<close>

datatype run_mode =
    GenConfig
  | ClientStop
  | ClientReset
  | ClientSave "path option"
  | ClientRun "path option" bool
  | Node bool "path option" "path option" u64
  | Panic

definition dispatch :: "cli \<Rightarrow> run_mode" where
  "dispatch cli =
     (if cli_gen_headless_config cli then GenConfig
      else if cli_cmd cli = Some CmdStop then ClientStop
      else if cli_cmd cli = Some CmdReset then ClientReset
      else (case cli_cmd cli of
              Some (CmdSave file) \<Rightarrow> ClientSave file
            | _ \<Rightarrow>
                (case cli_cmd cli of
                   None \<Rightarrow> ClientRun (cli_script cli) (cli_isolated cli)
                 | Some (CmdDaemon img) \<Rightarrow> Node True img None (cli_poll_ms cli)
                 | Some (CmdStandalone script) \<Rightarrow> Node False None script (cli_poll_ms cli)
                 | Some CmdStop \<Rightarrow> Panic
                 | Some CmdReset \<Rightarrow> Panic
                 | Some (CmdSave _) \<Rightarrow> Panic)))"

section \<open>What a node calls\<close>

record secrets =
  iroh_secret_key :: bytes
  ipns_secret_key :: bytes
  did_signing_key :: bytes
  created_at :: rstr

record date =
  date_year :: int
  date_month :: nat
  date_day :: nat

record publish_options =
  po_key_parts :: "rstr list"
  po_remote_pin :: "(rstr \<times> rstr) option"
  po_overwrite :: bool

text \<open>\<open>'t\<close> is a time stamp, \<open>'cfg\<close> the configuration, \<open>'doc\<close> a DID document, \<open>'ep\<close> an endpoint,
  \<open>'ext\<close> its extension and \<open>'sc\<close> the path registry.\<close>

record ('t, 'cfg, 'doc, 'ep, 'ext, 'sc) host =
  h_parse_time :: "rstr \<Rightarrow> (rstr, 't) result"
  h_to_utc :: "'t \<Rightarrow> 't"
  h_replace_nanosecond :: "'t \<Rightarrow> nat \<Rightarrow> (rstr, 't) result"
  h_format_time :: "'t \<Rightarrow> (rstr, rstr) result"
  h_today :: date
  h_blake3_hex :: "rstr \<Rightarrow> rstr"
  h_from_args :: "bool \<Rightarrow> (rstr, 'cfg) result"
  h_gen_headless :: "(rstr, unit) result"
  h_passphrase :: "'cfg \<Rightarrow> rstr option"
  h_effective_secret_bundle :: "'cfg \<Rightarrow> (rstr, path) result"
  h_slug :: "'cfg \<Rightarrow> rstr"
  h_kubo_rpc_url :: "'cfg \<Rightarrow> rstr"
  h_remote_pin :: "'cfg \<Rightarrow> rstr \<Rightarrow> (rstr, rstr option) result"
  h_exists :: "path \<Rightarrow> bool"
  h_bundle_load :: "path \<Rightarrow> rstr \<Rightarrow> (rstr, secrets) result"
  h_bundle_save :: "path \<Rightarrow> rstr \<Rightarrow> secrets \<Rightarrow> (rstr, unit) result"
  h_encryption_key :: "secrets \<Rightarrow> (rstr, bytes) result"
  h_build_document :: "secrets \<Rightarrow> 'ext \<Rightarrow> (rstr, 'doc) result"
  h_doc_id :: "'doc \<Rightarrow> rstr"
  h_doc_validate :: "'doc \<Rightarrow> (rstr, unit) result"
  h_doc_verify :: "'doc \<Rightarrow> (rstr, unit) result"
  h_doc_encode :: "'doc \<Rightarrow> (rstr, bytes) result"
  h_publisher_new :: "rstr \<Rightarrow> (rstr, unit) result"
  h_wait_until_ready :: "nat \<Rightarrow> (rstr, unit) result"
  h_publish :: "bytes \<Rightarrow> bytes \<Rightarrow> publish_options \<Rightarrow> (rstr, unit) result"
  h_new_endpoint :: "bytes \<Rightarrow> bytes \<Rightarrow> rstr \<Rightarrow> (rstr, 'ep) result"
  h_ma_extension :: "'ep \<Rightarrow> rstr \<Rightarrow> 'ext"
  h_scheme_config_path :: "(rstr, path) result"
  h_scheme_config_load :: "path \<Rightarrow> 'sc"

section \<open>The secret bundle\<close>

definition canonicalise_created_at ::
  "('t, 'cfg, 'doc, 'ep, 'ext, 'sc) host \<Rightarrow> rstr \<Rightarrow> (rstr, rstr) result" where
  "canonicalise_created_at h s =
     and_then (map_err (\<lambda>_. lit ''invalid secret bundle created_at'') (h_parse_time h s)) (\<lambda>t.
     and_then (map_err (\<lambda>_. lit ''invalid secret bundle created_at'') (h_replace_nanosecond h (h_to_utc h t) 0)) (\<lambda>t'.
       map_err (\<lambda>_. lit ''format secret bundle created_at'') (h_format_time h t')))"

text \<open>The result, with the bundle that was written back, if one was.\<close>

definition load_secret_bundle ::
  "('t, 'cfg, 'doc, 'ep, 'ext, 'sc) host \<Rightarrow> 'cfg \<Rightarrow> (rstr, secrets) result \<times> (path \<times> secrets) option" where
  "load_secret_bundle h cfg =
     (case h_passphrase h cfg of
        None \<Rightarrow> (Err (lit ''secret_bundle_passphrase is required (set MA_SECRET_BUNDLE_PASSPHRASE or add it to zscheme.yaml)''), None)
      | Some passphrase \<Rightarrow>
          (case h_effective_secret_bundle h cfg of
             Err e \<Rightarrow> (Err e, None)
           | Ok path \<Rightarrow>
               (case h_bundle_load h path passphrase of
                  Err e \<Rightarrow> (Err (lit ''failed to load secret bundle from '' @ path), None)
                | Ok bundle \<Rightarrow>
                    (case canonicalise_created_at h (created_at bundle) of
                       Err e \<Rightarrow> (Err e, None)
                     | Ok canonical \<Rightarrow>
                         if canonical \<noteq> created_at bundle then
                           (let bundle' = bundle\<lparr>created_at := canonical\<rparr> in
                            case h_bundle_save h path passphrase bundle' of
                              Err e \<Rightarrow> (Err (lit ''failed to persist migrated secret bundle to '' @ path), None)
                            | Ok _ \<Rightarrow> (Ok bundle', Some (path, bundle')))
                         else (Ok bundle, None)))))"

section \<open>Publication\<close>

definition daily_did_pin_name ::
  "('t, 'cfg, 'doc, 'ep, 'ext, 'sc) host \<Rightarrow> rstr \<Rightarrow> rstr \<Rightarrow> rstr" where
  "daily_did_pin_name h slug did =
     lit ''ma-zscheme-'' @ slug @ lit ''-'' @ take 16 (h_blake3_hex h did) @ lit ''-''
       @ show_padded 4 (date_year (h_today h)) @ lit ''-''
       @ show_padded 2 (int (date_month (h_today h))) @ lit ''-''
       @ show_padded 2 (int (date_day (h_today h)))"

text \<open>The publication of a document: the result, and what was handed to the publisher.\<close>

type_synonym publication = "bytes \<times> bytes \<times> publish_options"

definition publish_did_document ::
  "('t, 'cfg, 'doc, 'ep, 'ext, 'sc) host \<Rightarrow> 'cfg \<Rightarrow> 'doc \<Rightarrow> bytes \<Rightarrow>
     (rstr, unit) result \<times> publication list" where
  "publish_did_document h cfg doc ipns_key =
     (case and_then (map_err (\<lambda>_. lit ''DID document failed validation before publication'') (h_doc_validate h doc)) (\<lambda>_.
           and_then (map_err (\<lambda>_. lit ''DID document proof failed verification before publication'') (h_doc_verify h doc)) (\<lambda>_.
           and_then (map_err (\<lambda>_. lit ''failed to encode DID document for publication'') (h_doc_encode h doc)) (\<lambda>document_cbor.
           and_then (map_err (\<lambda>_. lit ''invalid kubo_rpc_url: '' @ h_kubo_rpc_url h cfg) (h_publisher_new h (h_kubo_rpc_url h cfg))) (\<lambda>_.
           and_then (map_err (\<lambda>_. lit ''Kubo RPC is not reachable for DID publication'') (h_wait_until_ready h 10)) (\<lambda>_.
           and_then (map_err (\<lambda>_. lit ''remote DID pinning is misconfigured'')
                      (h_remote_pin h cfg (daily_did_pin_name h (h_slug h cfg) (h_doc_id h doc)))) (\<lambda>remote.
             Ok (document_cbor, ipns_key,
                 \<lparr>po_key_parts = [lit ''zscheme'', h_slug h cfg],
                  po_remote_pin = map_option (\<lambda>service.
                    (service, daily_did_pin_name h (h_slug h cfg) (h_doc_id h doc))) remote,
                  po_overwrite = True\<rparr>))))))) of
        Err e \<Rightarrow> (Err e, [])
      | Ok (document_cbor, key, options) \<Rightarrow>
          (map_err (\<lambda>_. lit ''failed to publish DID document'') (h_publish h document_cbor key options),
           [(document_cbor, key, options)]))"

text \<open>
  The periodic publication: the first tick, which is immediate, only starts the clock; each later
  one builds and publishes.  Entry \<open>k\<close> of the log is the outcome of tick \<open>k\<close> and what it handed over.
\<close>

datatype tick_log = TickPublished | TickFailed rstr

definition publish_tick ::
  "('t, 'cfg, 'doc, 'ep, 'ext, 'sc) host \<Rightarrow> 'cfg \<Rightarrow> 'ext \<Rightarrow> secrets \<Rightarrow> tick_log \<times> publication list" where
  "publish_tick h cfg ext sec =
     (case h_build_document h sec ext of
        Err e \<Rightarrow> (TickFailed e, [])
      | Ok doc \<Rightarrow>
          (case publish_did_document h cfg doc (ipns_secret_key sec) of
             (Err e, pubs) \<Rightarrow> (TickFailed e, pubs)
           | (Ok _, pubs) \<Rightarrow> (TickPublished, pubs)))"

definition did_republish_interval :: nat where
  "did_republish_interval = 60 * 60"

fun periodic_publish ::
  "('t, 'cfg, 'doc, 'ep, 'ext, 'sc) host list \<Rightarrow> 'cfg \<Rightarrow> 'ext \<Rightarrow> secrets \<Rightarrow>
     (tick_log \<times> publication list) list" where
  "periodic_publish [] cfg ext sec = []"
| "periodic_publish (h # hs) cfg ext sec =
     publish_tick h cfg ext sec # periodic_publish hs cfg ext sec"

definition spawn_periodic_did_publish ::
  "('t, 'cfg, 'doc, 'ep, 'ext, 'sc) host list \<Rightarrow> 'cfg \<Rightarrow> 'ext \<Rightarrow> secrets \<Rightarrow>
     (tick_log \<times> publication list) list" where
  "spawn_periodic_did_publish ticks cfg ext sec = periodic_publish (tl ticks) cfg ext sec"

section \<open>Start-up of a node\<close>

definition zeroize :: "bytes \<Rightarrow> bytes" where
  "zeroize bs = map (\<lambda>_. 0) bs"

datatype start_effect =
    IdentityGenerated
  | BundleSaved path secrets
  | EndpointOpened
  | Published publication
  | ContextBuilt
  | PeriodicPublishStarted

record ('cfg, 'sc, 'ib, 'l, 'ext) node =
  node_ctx :: "('sc, 'ib, 'l) cli_ctx"
  node_secrets :: secrets
  node_publication :: "secrets option"
  node_config :: 'cfg
  node_extension :: 'ext

text \<open>The configuration, read again after the check for an identity, which is generated if absent.\<close>

definition load_config ::
  "('t, 'cfg, 'doc, 'ep, 'ext, 'sc) host \<Rightarrow> (rstr, 'cfg) result \<times> start_effect list" where
  "load_config h =
     (case and_then (h_from_args h False) (h_effective_secret_bundle h) of
        Err e \<Rightarrow> (Err e, [])
      | Ok path \<Rightarrow>
          if h_exists h path then (h_from_args h False, [])
          else
            (case h_gen_headless h of
               Err e \<Rightarrow> (Err e, [])
             | Ok _ \<Rightarrow> (h_from_args h True, [IdentityGenerated])))"

text \<open>From the loaded bundle to the running node: endpoint, document, publication, context.\<close>

definition build_node ::
  "('t, 'cfg, 'doc, 'ep, 'ext, 'sc) host \<Rightarrow> bool \<Rightarrow> 'ib \<Rightarrow> 'cfg \<Rightarrow> secrets \<Rightarrow>
     (rstr, ('cfg, 'sc, 'ib, 'l, 'ext) node) result \<times> start_effect list" where
  "build_node h is_daemon ib cfg sec =
     (case and_then (h_encryption_key h sec)
             (\<lambda>enc. h_new_endpoint h (iroh_secret_key sec) enc (h_kubo_rpc_url h cfg)) of
        Err e \<Rightarrow> (Err e, [])
      | Ok ep \<Rightarrow>
          (let ext = h_ma_extension h ep (lit ''agent'') in
           case h_build_document h sec ext of
             Err e \<Rightarrow> (Err (lit ''failed to build DID document''), [EndpointOpened])
           | Ok doc \<Rightarrow>
               (case publish_did_document h cfg doc (ipns_secret_key sec) of
                  (Err e, pubs) \<Rightarrow> (Err e, EndpointOpened # map Published pubs)
                | (Ok _, pubs) \<Rightarrow>
                    (let sec1 = sec\<lparr>ipns_secret_key := zeroize (ipns_secret_key sec)\<rparr> in
                     case h_scheme_config_path h of
                       Err e \<Rightarrow> (Err e, EndpointOpened # map Published pubs)
                     | Ok data_path \<Rightarrow>
                         (let ctx = cli_ctx_new
                                \<lparr>init_config = h_scheme_config_load h data_path, init_our_did = h_doc_id h doc,
                                 init_signing_key_bytes = did_signing_key sec1,
                                 init_kubo_url = h_kubo_rpc_url h cfg, init_inbox = ib\<rparr>;
                              sec2 = sec1\<lparr>did_signing_key := zeroize (did_signing_key sec1)\<rparr> in
                          (Ok \<lparr>node_ctx = ctx, node_secrets = sec2,
                               node_publication = (if is_daemon then Some sec else None),
                               node_config = cfg, node_extension = ext\<rparr>,
                           EndpointOpened # map Published pubs @ [ContextBuilt] @
                             (if is_daemon then [PeriodicPublishStarted] else [])))))))"

definition start_node ::
  "('t, 'cfg, 'doc, 'ep, 'ext, 'sc) host \<Rightarrow> bool \<Rightarrow> 'ib \<Rightarrow>
     (rstr, ('cfg, 'sc, 'ib, 'l, 'ext) node) result \<times> start_effect list" where
  "start_node h is_daemon ib =
     (case load_config h of
        (Err e, effs) \<Rightarrow> (Err e, effs)
      | (Ok cfg, effs) \<Rightarrow>
          (case load_secret_bundle h cfg of
             (Err e, saved) \<Rightarrow> (Err e, effs)
           | (Ok sec, saved) \<Rightarrow>
               (case build_node h is_daemon ib cfg sec of
                  (r, effs') \<Rightarrow>
                    (r, effs @ (case saved of None \<Rightarrow> [] | Some (p, b) \<Rightarrow> [BundleSaved p b]) @ effs'))))"

section \<open>The two modes of a node\<close>

text \<open>The reply poll loop: one \<open>poll_replies\<close> after each interval, for the ticks so far.\<close>

definition poll_loop ::
  "(u64 \<Rightarrow> 'ib \<Rightarrow> 'msg list \<times> 'ib) \<Rightarrow> ('did, 'key, 'msg, 'ob) ma_core \<Rightarrow>
     (bytes \<Rightarrow> (rstr, 'l scheme_val) result) \<Rightarrow> u64 list \<Rightarrow> ('cfg, 'ib, 'l) cli_ctx \<Rightarrow> ('cfg, 'ib, 'l) cli_ctx" where
  "poll_loop drain core decode ticks ctx = fold (poll_replies drain core decode) ticks ctx"

datatype node_effect = NodeDaemon daemon_effect | EndpointClosed

definition daemon_main ::
  "('e, 'cfg, 'ib, 'l) engine \<Rightarrow> claim_outcome \<Rightarrow> (path \<times> (rstr, rstr) result option) option \<Rightarrow>
     (rstr, unit) result \<Rightarrow> server_event list \<Rightarrow> (('e, 'cfg, 'ib, 'l) daemon \<Rightarrow> ('e, 'cfg, 'ib, 'l) daemon) \<Rightarrow>
     ('cfg, 'ib, 'l) cli_ctx \<Rightarrow> node_effect list \<times> (run_error, unit) result option" where
  "daemon_main eng claim img bind_result evs serve ctx =
     (case daemon_run eng claim img bind_result evs serve
             \<lparr>d_env = eng_session_init eng, d_ctx = ctx, d_stop = False\<rparr> of
        (effs, None) \<Rightarrow> (map NodeDaemon effs, None)
      | (effs, Some r) \<Rightarrow> (map NodeDaemon effs @ [EndpointClosed], Some r))"

record ('cfg, 'ib, 'l) standalone =
  sa_console :: "console list"
  sa_result :: "(rstr, unit) result option"
  sa_ctx :: "('cfg, 'ib, 'l) cli_ctx"

definition async_main ::
  "('e, 'cfg, 'ib, 'l) engine \<Rightarrow> (scheme_err \<Rightarrow> rstr) \<Rightarrow> (path \<Rightarrow> (rstr, rstr) result) \<Rightarrow>
     (('e, 'cfg, 'ib, 'l) world repl_eval \<Rightarrow> ('e, 'cfg, 'ib, 'l) world \<Rightarrow> ('e, 'cfg, 'ib, 'l) world repl_report) \<Rightarrow>
     path option \<Rightarrow> ('cfg, 'ib, 'l) cli_ctx \<Rightarrow> ('cfg, 'ib, 'l) standalone" where
  "async_main eng show_err read_to_string session script ctx =
     (let w = (eng_session_init eng, ctx) in
      case script of
        Some path \<Rightarrow>
          (let rep = run_file read_to_string (world_source eng) show_err path w in
           \<lparr>sa_console = map StdOut (run_displayed rep) @ map eprintln (run_stderr rep),
            sa_result = Some (run_result rep), sa_ctx = cli_ctx_close (snd (run_state rep))\<rparr>)
      | None \<Rightarrow>
          (let rep = session (world_eval eng) w in
           \<lparr>sa_console = rep_console rep, sa_result = rep_result rep,
            sa_ctx = (case rep_result rep of
                        None \<Rightarrow> snd (rep_backend rep)
                      | Some _ \<Rightarrow> cli_ctx_close (snd (rep_backend rep)))\<rparr>))"

section \<open>Dispatch and key material\<close>

text \<open>
  The command line is taken apart without reaching the panic, generating a configuration
  takes precedence over any subcommand, and only the daemon and standalone modes start a node.
\<close>

lemma dispatch_total:
  "dispatch cli \<noteq> Panic \<and> (dispatch cli = GenConfig \<longleftrightarrow> cli_gen_headless_config cli) \<and>
   ((\<exists>b img script ms. dispatch cli = Node b img script ms) \<longleftrightarrow>
      \<not> cli_gen_headless_config cli \<and>
      (\<exists>p. cli_cmd cli = Some (CmdDaemon p) \<or> cli_cmd cli = Some (CmdStandalone p)))"
  by (cases "cli_cmd cli") (auto simp: dispatch_def split: cmd.splits)

lemma publish_handed_over:
  assumes "publish_did_document h cfg doc key = (r, pubs)" and "(cbor, k, opts) \<in> set pubs"
  shows "h_doc_validate h doc = Ok () \<and> h_doc_verify h doc = Ok () \<and> h_doc_encode h doc = Ok cbor \<and> k = key \<and>
    (\<forall>service name. po_remote_pin opts = Some (service, name) \<longrightarrow>
       name = daily_did_pin_name h (h_slug h cfg) (h_doc_id h doc))"
  using assms
  by (auto simp: publish_did_document_def result_simps split: sum.splits prod.splits)

text \<open>
  Nothing is handed to the publisher but the encoding of a document that passed validation
  and the verification of its proof, signed with the given key; a remote pin carries the day's name.
\<close>

lemma published_is_verified:
  assumes "publish_did_document h cfg doc key = (r, pubs)"
  shows "length pubs \<le> 1 \<and> (r = Ok () \<longrightarrow> length pubs = 1) \<and>
    (\<forall>(cbor, k, opts) \<in> set pubs.
       h_doc_validate h doc = Ok () \<and> h_doc_verify h doc = Ok () \<and> h_doc_encode h doc = Ok cbor \<and> k = key \<and>
       (\<forall>service name. po_remote_pin opts = Some (service, name) \<longrightarrow>
          name = daily_did_pin_name h (h_slug h cfg) (h_doc_id h doc)))"
proof -
  have "length pubs \<le> 1 \<and> (r = Ok () \<longrightarrow> length pubs = 1)"
    using assms by (auto simp: publish_did_document_def split: sum.splits prod.splits)
  with publish_handed_over [OF assms] show ?thesis by blast
qed

text \<open>A host for the examples: an identity exists, its bundle has a fractional time stamp, and
  every call succeeds.  Time stamps are pairs of seconds and nanoseconds.\<close>

definition sample_secrets :: secrets where
  "sample_secrets = \<lparr>iroh_secret_key = [1], ipns_secret_key = [2, 2], did_signing_key = [3, 3],
     created_at = lit ''5.4''\<rparr>"

definition sample_host :: "(nat \<times> nat, unit, rstr, unit, unit, unit) host" where
  "sample_host =
     \<lparr>h_parse_time = (\<lambda>s. if s = lit ''5.4'' then Ok (5, 4) else if s = lit ''5'' then Ok (5, 0) else Err []),
      h_to_utc = id, h_replace_nanosecond = (\<lambda>t n. Ok (fst t, n)),
      h_format_time = (\<lambda>t. if t = (5, 0) then Ok (lit ''5'') else Err []),
      h_today = \<lparr>date_year = 2026, date_month = 7, date_day = 9\<rparr>,
      h_blake3_hex = (\<lambda>_. replicate 64 97),
      h_from_args = (\<lambda>_. Ok ()), h_gen_headless = Ok (), h_passphrase = (\<lambda>_. Some []),
      h_effective_secret_bundle = (\<lambda>_. Ok (lit ''b'')), h_slug = (\<lambda>_. lit ''z''), h_kubo_rpc_url = (\<lambda>_. []),
      h_remote_pin = (\<lambda>_ _. Ok (Some (lit ''r''))), h_exists = (\<lambda>_. True),
      h_bundle_load = (\<lambda>_ _. Ok sample_secrets), h_bundle_save = (\<lambda>_ _ _. Ok ()),
      h_encryption_key = (\<lambda>_. Ok [9]), h_build_document = (\<lambda>_ _. Ok (lit ''did:ma:me'')),
      h_doc_id = id, h_doc_validate = (\<lambda>_. Ok ()), h_doc_verify = (\<lambda>_. Ok ()), h_doc_encode = (\<lambda>_. Ok [7]),
      h_publisher_new = (\<lambda>_. Ok ()), h_wait_until_ready = (\<lambda>_. Ok ()), h_publish = (\<lambda>_ _ _. Ok ()),
      h_new_endpoint = (\<lambda>_ _ _. Ok ()), h_ma_extension = (\<lambda>_ _. ()),
      h_scheme_config_path = Ok [], h_scheme_config_load = (\<lambda>_. ())\<rparr>"

lemma start_node_ok:
  assumes "start_node h is_daemon ib = (Ok n, effs)"
  shows "\<exists>sec pub pre. fst (load_secret_bundle h (node_config n)) = Ok sec \<and>
    node_secrets n = sec\<lparr>ipns_secret_key := zeroize (ipns_secret_key sec),
      did_signing_key := zeroize (did_signing_key sec)\<rparr> \<and>
    signing_key_bytes (node_ctx n) = did_signing_key sec \<and>
    node_publication n = (if is_daemon then Some sec else None) \<and>
    fst (snd pub) = ipns_secret_key sec \<and>
    effs = pre @ [EndpointOpened, Published pub, ContextBuilt] @
      (if is_daemon then [PeriodicPublishStarted] else [])"
proof -
  obtain cfg effs0 where cfg: "load_config h = (Ok cfg, effs0)"
    using assms by (auto simp: start_node_def split: prod.splits sum.splits)
  obtain sec saved where sec: "load_secret_bundle h cfg = (Ok sec, saved)"
    using assms cfg by (auto simp: start_node_def split: prod.splits sum.splits)
  obtain effs1 where b: "build_node h is_daemon ib cfg sec = (Ok n, effs1)"
    and effs: "effs = (effs0 @ (case saved of None \<Rightarrow> [] | Some (p, b) \<Rightarrow> [BundleSaved p b])) @ effs1"
    using assms cfg sec by (auto simp: start_node_def split: prod.splits)
  obtain doc pubs where p: "publish_did_document h cfg doc (ipns_secret_key sec) = (Ok (), pubs)"
    and n: "node_config n = cfg" "node_secrets n = sec\<lparr>ipns_secret_key := zeroize (ipns_secret_key sec),
        did_signing_key := zeroize (did_signing_key sec)\<rparr>"
      "signing_key_bytes (node_ctx n) = did_signing_key sec"
      "node_publication n = (if is_daemon then Some sec else None)"
    and effs1: "effs1 = EndpointOpened # map Published pubs @ [ContextBuilt] @
        (if is_daemon then [PeriodicPublishStarted] else [])"
    using b by (auto simp: build_node_def Let_def cli_ctx_new_def split: prod.splits sum.splits)
  obtain pub where "pubs = [pub]" "fst (snd pub) = ipns_secret_key sec"
    using p by (auto simp: publish_did_document_def result_simps split: sum.splits prod.splits)
  with sec n effs effs1 show ?thesis by (intro exI [of _ sec] exI [of _ pub] exI) auto
qed

text \<open>
  C31.  A node that starts has published its document before its context exists, and the key
  material is where it should be: the publication key and the signing key are zeroed in the
  start-up's bundle, the context holds the signing key, and only a daemon keeps a second, whole
  bundle, to publish with later.
\<close>

theorem start_node_keys:
  assumes "start_node h is_daemon ib = (Ok n, effs)"
  shows "\<exists>sec pub pre. fst (load_secret_bundle h (node_config n)) = Ok sec \<and>
    node_secrets n = sec\<lparr>ipns_secret_key := zeroize (ipns_secret_key sec),
      did_signing_key := zeroize (did_signing_key sec)\<rparr> \<and>
    signing_key_bytes (node_ctx n) = did_signing_key sec \<and>
    node_publication n = (if is_daemon then Some sec else None) \<and>
    fst (snd pub) = ipns_secret_key sec \<and>
    effs = pre @ [EndpointOpened, Published pub, ContextBuilt] @
      (if is_daemon then [PeriodicPublishStarted] else [])"
  by (rule start_node_ok [OF assms])

lemma sample_bundle:
  "load_secret_bundle sample_host () =
     (Ok (sample_secrets\<lparr>created_at := lit ''5''\<rparr>), Some (lit ''b'', sample_secrets\<lparr>created_at := lit ''5''\<rparr>))"
  by (simp add: load_secret_bundle_def canonicalise_created_at_def sample_host_def sample_secrets_def Let_def)

lemma sample_config: "load_config sample_host = (Ok (), [])"
  by (simp add: load_config_def sample_host_def)

lemma sample_build:
  "\<exists>n effs. build_node sample_host True () () sec = (Ok (n :: (unit, unit, unit, unit, unit) node), effs)"
  by (simp add: build_node_def sample_host_def publish_did_document_def Let_def)

theorem start_node_keys_witness:
  "\<exists>n effs. start_node sample_host True () = (Ok (n :: (unit, unit, unit, unit, unit) node), effs) \<and>
     ipns_secret_key (node_secrets n) = [0, 0]"
proof -
  obtain n effs where "build_node sample_host True () () (sample_secrets\<lparr>created_at := lit ''5''\<rparr>) =
      (Ok (n :: (unit, unit, unit, unit, unit) node), effs)"
    using sample_build by blast
  then have st: "start_node sample_host True () =
      (Ok n, [BundleSaved (lit ''b'') (sample_secrets\<lparr>created_at := lit ''5''\<rparr>)] @ effs)"
    by (simp add: start_node_def sample_config sample_bundle)
  from start_node_keys [OF st] show ?thesis
    using st by (auto simp: sample_bundle zeroize_def sample_secrets_def)
qed

section \<open>The bundle's time stamp\<close>

text \<open>
  C38.  A bundle is migrated at most once: given that formatting a whole-second UTC time stamp and
  parsing it again is the identity and that truncating twice is truncating once, loading what a
  load returned returns it again and writes nothing; and what a load writes back is what it returns.
\<close>

theorem bundle_migrates_once:
  assumes round_trip: "\<And>t t' s. h_replace_nanosecond h (h_to_utc h t) 0 = Ok t' \<Longrightarrow>
      h_format_time h t' = Ok s \<Longrightarrow> h_parse_time h s = Ok t'"
    and truncated: "\<And>t t'. h_replace_nanosecond h (h_to_utc h t) 0 = Ok t' \<Longrightarrow>
      h_replace_nanosecond h (h_to_utc h t') 0 = Ok t'"
    and load: "load_secret_bundle h cfg = (Ok b, saved)"
  shows "load_secret_bundle (h\<lparr>h_bundle_load := \<lambda>_ _. Ok b\<rparr>) cfg = (Ok b, None) \<and>
    (saved = None \<or> (\<exists>path. saved = Some (path, b)))"
proof -
  obtain pass path b0 c where
    steps: "h_passphrase h cfg = Some pass" "h_effective_secret_bundle h cfg = Ok path"
      "h_bundle_load h path pass = Ok b0" "canonicalise_created_at h (created_at b0) = Ok c"
    and b: "b = b0\<lparr>created_at := c\<rparr>" and saved: "saved = (if c = created_at b0 then None else Some (path, b))"
    using load
    by (auto simp: load_secret_bundle_def Let_def split: option.splits sum.splits if_splits)
  have "canonicalise_created_at h c = Ok c"
    using steps(4) round_trip truncated
    by (fastforce simp: canonicalise_created_at_def result_simps)
  moreover have "canonicalise_created_at (h\<lparr>h_bundle_load := \<lambda>_ _. Ok b\<rparr>) = canonicalise_created_at h"
    by (simp add: fun_eq_iff canonicalise_created_at_def)
  ultimately show ?thesis
    using steps(1,2) saved by (auto simp: load_secret_bundle_def b)
qed

theorem bundle_migrates_once_witness:
  "load_secret_bundle (sample_host\<lparr>h_bundle_load := \<lambda>_ _. Ok (sample_secrets\<lparr>created_at := lit ''5''\<rparr>)\<rparr>) ()
     = (Ok (sample_secrets\<lparr>created_at := lit ''5''\<rparr>), None)"
proof -
  have "h_parse_time sample_host s = Ok t'"
    if "h_replace_nanosecond sample_host (h_to_utc sample_host t) 0 = Ok t'" "h_format_time sample_host t' = Ok s"
    for t t' s
    using that by (auto simp: sample_host_def split: if_splits)
  moreover have "h_replace_nanosecond sample_host (h_to_utc sample_host t') 0 = Ok t'"
    if "h_replace_nanosecond sample_host (h_to_utc sample_host t) 0 = Ok t'" for t t'
    using that by (auto simp: sample_host_def)
  ultimately show ?thesis
    using bundle_migrates_once [OF _ _ sample_bundle] by blast
qed

section \<open>Pin names\<close>

lemma same_tail: "xs @ us = ys @ vs \<Longrightarrow> length us = length vs \<Longrightarrow> xs = ys \<and> us = vs"
  by simp

lemma digits_value_pad: "digits_value (pad_zeros w s) = digits_value s"
proof -
  have "foldl (\<lambda>n c. 10 * n + (c - 48)) 0 (replicate k 48 @ s) = foldl (\<lambda>n c. 10 * n + (c - 48)) 0 s" for k
    by (induction k) simp_all
  then show ?thesis by (simp add: digits_value_def pad_zeros_def)
qed

lemma show_padded_inj: "show_padded w (int m) = show_padded w (int n) \<Longrightarrow> m = n"
  by (simp add: show_padded_def) (metis digits_value_nat_digits digits_value_pad)

lemma length_show_padded: "n < 10 ^ w \<Longrightarrow> 0 < w \<Longrightarrow> length (show_padded w (int n)) = w"
  using length_nat_digits_le [of n w] by (simp add: show_padded_def max_absorb1)

definition calendar_date :: "date \<Rightarrow> bool" where
  "calendar_date d \<longleftrightarrow> 0 \<le> date_year d \<and> date_year d \<le> 9999 \<and> date_month d \<le> 12 \<and> date_day d \<le> 31"

definition date_text :: "date \<Rightarrow> rstr" where
  "date_text d = show_padded 4 (date_year d) @ lit ''-'' @ show_padded 2 (int (date_month d)) @ lit ''-''
     @ show_padded 2 (int (date_day d))"

lemma date_text_inj:
  assumes "calendar_date d" and "calendar_date e" and "date_text d = date_text e"
  shows "length (date_text d) = 10 \<and> (d :: date) = e"
proof -
  obtain y z where y: "date_year d = int y" "date_year e = int z" "y < 10 ^ 4" "z < 10 ^ 4"
    using assms(1,2) by (auto simp: calendar_date_def elim!: nonneg_int_cases)
  have len: "length (show_padded 4 (int y)) = 4" "length (show_padded 4 (int z)) = 4"
      "length (show_padded 2 (int (date_month d))) = 2" "length (show_padded 2 (int (date_month e))) = 2"
      "length (show_padded 2 (int (date_day d))) = 2"
    using assms(1,2) y by (auto intro!: length_show_padded simp: calendar_date_def)
  from assms(3) len have "show_padded 4 (int y) = show_padded 4 (int z)"
      "show_padded 2 (int (date_month d)) = show_padded 2 (int (date_month e))"
      "show_padded 2 (int (date_day d)) = show_padded 2 (int (date_day e))"
    by (simp_all add: date_text_def y(1,2))
  then have "y = z" "date_month d = date_month e" "date_day d = date_day e"
    by (auto dest: show_padded_inj)
  with len y(1,2) show ?thesis by (simp add: date_text_def)
qed

text \<open>
  The daily pin name identifies what it names: for hashes of 64 hex digits and dates of this
  era, two equal names come from the same slug, the same first sixteen digits of the
  identity's hash and the same day, so a day's publications share one pin and another day never overwrites it.
\<close>

lemma daily_pin_name_unique:
  assumes "length (h_blake3_hex h did) = 64" and "length (h_blake3_hex h' did') = 64"
    and "calendar_date (h_today h)" and "calendar_date (h_today h')"
    and "daily_did_pin_name h slug did = daily_did_pin_name h' slug' did'"
  shows "slug = slug' \<and> take 16 (h_blake3_hex h did) = take 16 (h_blake3_hex h' did') \<and> h_today h = h_today h'"
proof -
  have len: "length (date_text d) = 10" if "calendar_date d" for d
    using date_text_inj [OF that that] by simp
  from assms(5) have "(slug @ lit ''-'' @ take 16 (h_blake3_hex h did) @ lit ''-'') @ date_text (h_today h) =
      (slug' @ lit ''-'' @ take 16 (h_blake3_hex h' did') @ lit ''-'') @ date_text (h_today h')"
    by (simp add: daily_did_pin_name_def date_text_def)
  from same_tail [OF this] have d: "date_text (h_today h) = date_text (h_today h')"
    and s: "slug @ lit ''-'' @ take 16 (h_blake3_hex h did) @ lit ''-'' =
      slug' @ lit ''-'' @ take 16 (h_blake3_hex h' did') @ lit ''-''"
    using len [OF assms(3)] len [OF assms(4)] by simp_all
  from s have "slug @ (lit ''-'' @ take 16 (h_blake3_hex h did)) =
      slug' @ (lit ''-'' @ take 16 (h_blake3_hex h' did'))"
    by simp
  from same_tail [OF this] have "slug = slug'" "take 16 (h_blake3_hex h did) = take 16 (h_blake3_hex h' did')"
    using assms(1,2) by simp_all
  with date_text_inj [OF assms(3,4) d] show ?thesis by simp
qed

end
