(* ===== verification/Zs_Entry.thy ===== *)
theory Zs_Entry
  imports Zs_Main Zs_Takeover
begin

text \<open>
  The whole program: \<open>main\<close> of \<open>src/src/main.rs\<close> from the command line to the result, every mode
  composed of the models of its parts.  What the modes meet outside (the codecs, the connections,
  the terminal, the files, the socket, the other daemon) is the record \<open>outside\<close>.
\<close>

section \<open>The composition\<close>

record ('e, 'sc, 'ib, 'l) outside =
  x_gen_config :: "(rstr, unit) result"
  x_into_writer :: "request \<Rightarrow> (rstr, bytes) result"
  x_from_reader :: "bytes \<Rightarrow> (rstr, response) result"
  x_debug :: "response \<Rightarrow> rstr"
  x_eof_text :: rstr
  x_attempt :: "nat \<Rightarrow> (rstr, ipc_stream) result"
  x_spawned :: "(rstr, daemon_command) result"
  x_log_path :: "(rstr, path) result"
  x_read_file :: "path \<Rightarrow> (rstr, rstr) result"
  x_write_file :: "path \<Rightarrow> rstr \<Rightarrow> (rstr, unit) result"
  x_strip_comments :: "rstr \<Rightarrow> rstr"
  x_history_path :: "path option"
  x_history :: "rstr list"
  x_editor :: "(rstr, unit) result"
  x_keys :: "readline_event list"
  x_show_err :: "scheme_err \<Rightarrow> rstr"
  x_socket_path :: "(rstr, path) result"
  x_path_exists :: "nat \<Rightarrow> bool"
  x_connect :: "nat \<Rightarrow> ipc_stream option"
  x_remove_file :: "(rstr, unit) result"
  x_image :: "path \<Rightarrow> (rstr, rstr) result option"
  x_bound :: "(rstr, unit) result"
  x_signals :: "server_event list"
  x_serve :: "('e, 'sc, 'ib, 'l) daemon \<Rightarrow> ('e, 'sc, 'ib, 'l) daemon"
  x_inbox :: 'ib

datatype main_error = MainClient client_error | MainMsg rstr | MainDaemon run_error | MainPanic

datatype main_effect =
    Connecting connect_effect
  | Console console
  | SessionWritten path rstr
  | Starting start_effect
  | Running node_effect

text \<open>The terminal session of \<open>run_repl\<close>, over any backend.\<close>

definition x_session :: "('e, 'sc, 'ib, 'l) outside \<Rightarrow> 's repl_eval \<Rightarrow> 's \<Rightarrow> 's repl_report" where
  "x_session x ev = run_repl (x_strip_comments x) ev (x_history_path x) (x_history x) (x_editor x) (x_keys x)"

text \<open>A client's wait or return; \<open>None\<close> is a program that is still running.\<close>

definition client_returned :: "unit awaited \<Rightarrow> (main_error, unit) result option" where
  "client_returned r = (case r of Waiting \<Rightarrow> None | Returned q \<Rightarrow> Some (map_err MainClient q))"

definition client_main ::
  "('e, 'sc, 'ib, 'l) outside \<Rightarrow> path option \<Rightarrow> bool \<Rightarrow>
     main_effect list \<times> (main_error, unit) result option" where
  "client_main x script isolated =
     (case connect_or_spawn (x_into_writer x) (x_from_reader x) (x_debug x) (x_attempt x) (x_spawned x)
             (x_log_path x) isolated of
        (connected, effs) \<Rightarrow>
          (case client_run (x_eof_text x) (x_into_writer x) (x_from_reader x) (x_read_file x) (x_session x)
                  connected script of
             (outs, r) \<Rightarrow> (map Connecting effs @ map Console outs, client_returned r)))"

definition node_main ::
  "('t, 'cfg, 'doc, 'ep, 'ext, 'sc) host \<Rightarrow> ('e, 'sc, 'ib, 'l) engine \<Rightarrow> ('e, 'sc, 'ib, 'l) outside \<Rightarrow>
     bool \<Rightarrow> path option \<Rightarrow> path option \<Rightarrow> main_effect list \<times> (main_error, unit) result option" where
  "node_main h eng x is_daemon img script =
     (case (start_node h is_daemon (x_inbox x) ::
              (rstr, ('cfg, 'sc, 'ib, 'l, 'ext) node) result \<times> start_effect list) of
        (Err e, effs) \<Rightarrow> (map Starting effs, Some (Err (MainMsg e)))
      | (Ok n, effs) \<Rightarrow>
          if is_daemon then
            (case daemon_main eng
                    (claim_socket (x_into_writer x) (x_from_reader x) (x_socket_path x) (x_path_exists x)
                       (x_connect x) (x_remove_file x))
                    (map_option (\<lambda>p. (p, x_image x p)) img) (x_bound x) (x_signals x) (x_serve x) (node_ctx n) of
               (neffs, r) \<Rightarrow> (map Starting effs @ map Running neffs, map_option (map_err MainDaemon) r))
          else
            (let rep = async_main eng (x_show_err x) (x_read_file x) (x_session x) script (node_ctx n) in
             (map Starting effs @ map Console (sa_console rep) @
                (case sa_result rep of None \<Rightarrow> [] | Some _ \<Rightarrow> [Running EndpointClosed]),
              map_option (map_err MainMsg) (sa_result rep))))"

definition zscheme_main ::
  "('t, 'cfg, 'doc, 'ep, 'ext, 'sc) host \<Rightarrow> ('e, 'sc, 'ib, 'l) engine \<Rightarrow> ('e, 'sc, 'ib, 'l) outside \<Rightarrow>
     cli \<Rightarrow> main_effect list \<times> (main_error, unit) result option" where
  "zscheme_main h eng x cli =
     (case dispatch cli of
        GenConfig \<Rightarrow> ([], Some (map_err MainMsg (x_gen_config x)))
      | ClientStop \<Rightarrow>
          (case client_stop (x_into_writer x) (x_from_reader x) (x_attempt x 0) of
             (outs, r) \<Rightarrow> (map Console outs, client_returned r))
      | ClientReset \<Rightarrow>
          (case client_reset (x_into_writer x) (x_from_reader x) (x_attempt x 0) of
             (outs, r) \<Rightarrow> (map Console outs, client_returned r))
      | ClientSave file \<Rightarrow>
          (case client_save (x_into_writer x) (x_from_reader x) (x_write_file x) file (x_attempt x 0) of
             (outs, written, r) \<Rightarrow>
               ((case written of None \<Rightarrow> [] | Some (p, s) \<Rightarrow> [SessionWritten p s]) @ map Console outs,
                client_returned r))
      | ClientRun script isolated \<Rightarrow> client_main x script isolated
      | Node is_daemon img script poll_ms \<Rightarrow> node_main h eng x is_daemon img script
      | Panic \<Rightarrow> ([], Some (Err MainPanic)))"

section \<open>Who owns an endpoint, and for how long\<close>

definition endpoints_opened :: "main_effect list \<Rightarrow> nat" where
  "endpoints_opened effs = length (filter (\<lambda>e. e = Starting EndpointOpened) effs)"

lemma endpoints_opened_simps [simp]:
  "endpoints_opened [] = 0"
  "endpoints_opened (xs @ ys) = endpoints_opened xs + endpoints_opened ys"
  "endpoints_opened (map Starting effs) = length (filter (\<lambda>e. e = EndpointOpened) effs)"
  "endpoints_opened (map Running neffs) = 0"
  "endpoints_opened (map Console outs) = 0"
  "endpoints_opened (map Connecting ceffs) = 0"
  "e \<noteq> Starting EndpointOpened \<Longrightarrow> endpoints_opened (e # xs) = endpoints_opened xs"
  by (simp_all add: endpoints_opened_def filter_map comp_def)

lemma start_node_effects:
  fixes h :: "('t, 'cfg, 'doc, 'ep, 'ext, 'sc) host" and r :: "(rstr, ('cfg, 'sc, 'ib, 'l, 'ext) node) result"
  assumes "start_node h is_daemon ib = (r, effs)"
  shows "length (filter (\<lambda>e. e = EndpointOpened) effs) \<le> 1 \<and> (ContextBuilt \<in> set effs \<longleftrightarrow> is_ok r)"
proof -
  have load: "EndpointOpened \<notin> set effs \<and> ContextBuilt \<notin> set effs" if "load_config h = (r, effs)" for r effs
    using that by (auto simp: load_config_def split: sum.splits if_splits)
  have build: "length (filter (\<lambda>e. e = EndpointOpened) effs) \<le> 1 \<and> (ContextBuilt \<in> set effs \<longleftrightarrow> is_ok r)"
    if "build_node h is_daemon ib cfg sec = (r, effs)"
    for r :: "(rstr, ('cfg, 'sc, 'ib, 'l, 'ext) node) result" and effs cfg sec
    using that
    by (auto simp: build_node_def Let_def filter_map comp_def split: sum.splits prod.splits)
  have none: "filter (\<lambda>e. e = EndpointOpened) xs = []" if "EndpointOpened \<notin> set xs" for xs
    using that by (auto simp: filter_empty_conv)
  obtain rc effs0 where cfg: "load_config h = (rc, effs0)" by fastforce
  note load = load [OF cfg]
  show ?thesis
  proof (cases rc)
    case (Inl e)
    with assms cfg load show ?thesis by (auto simp: start_node_def none)
  next
    case (Inr cfg')
    obtain rs saved where sec: "load_secret_bundle h cfg' = (rs, saved)" by fastforce
    show ?thesis
    proof (cases rs)
      case (Inl e)
      with assms cfg sec Inr load show ?thesis by (auto simp: start_node_def none)
    next
      case (Inr sec')
      obtain rb :: "(rstr, ('cfg, 'sc, 'ib, 'l, 'ext) node) result" and effs1 where b: "build_node h is_daemon ib cfg' sec' = (rb, effs1)" by fastforce
      have "r = rb" and effs: "effs = effs0 @ (case saved of None \<Rightarrow> [] | Some (p, b) \<Rightarrow> [BundleSaved p b]) @ effs1"
        using assms cfg sec b Inr \<open>rc = Ok cfg'\<close> by (simp_all add: start_node_def)
      with build [OF b] load show ?thesis by (auto simp: none split: option.splits)
    qed
  qed
qed

lemma daemon_main_ends:
  "daemon_main eng claim img bind_result evs serve ctx = (effs, Some r) \<Longrightarrow>
     \<exists>des. effs = map NodeDaemon des @ [EndpointClosed]"
  by (auto simp: daemon_main_def split: prod.splits option.splits)

lemma node_main_effects:
  fixes h :: "('t, 'cfg, 'doc, 'ep, 'ext, 'sc) host" and eng :: "('e, 'sc, 'ib, 'l) engine"
  assumes "node_main h eng x is_daemon img script = (effs, r)"
  shows "endpoints_opened effs \<le> 1 \<and> r \<noteq> Some (Err MainPanic) \<and>
    (Starting ContextBuilt \<in> set effs \<and> r \<noteq> None \<longrightarrow> last effs = Running EndpointClosed) \<and>
    (r = Some (Ok ()) \<longrightarrow> Starting ContextBuilt \<in> set effs)"
proof -
  obtain q :: "(rstr, ('cfg, 'sc, 'ib, 'l, 'ext) node) result" and effs0
    where st: "start_node h is_daemon (x_inbox x) = (q, effs0)" by fastforce
  note start = start_node_effects [OF st]
  show ?thesis
  proof (cases q)
    case (Inl e)
    with assms st start show ?thesis by (auto simp: node_main_def)
  next
    case (Inr n)
    show ?thesis
    proof (cases is_daemon)
      case True
      obtain neffs r' where m: "daemon_main eng
          (claim_socket (x_into_writer x) (x_from_reader x) (x_socket_path x) (x_path_exists x)
             (x_connect x) (x_remove_file x))
          (map_option (\<lambda>p. (p, x_image x p)) img) (x_bound x) (x_signals x) (x_serve x) (node_ctx n) = (neffs, r')"
        by fastforce
      then have "effs = map Starting effs0 @ map Running neffs" "r = map_option (map_err MainDaemon) r'"
        using assms st Inr True by (simp_all add: node_main_def)
      with start Inr m show ?thesis
        by (cases r') (auto dest!: daemon_main_ends simp: map_err_Err_iff map_err_Ok_iff)
    next
      case False
      let ?rep = "async_main eng (x_show_err x) (x_read_file x) (x_session x) script (node_ctx n)"
      have "effs = map Starting effs0 @ map Console (sa_console ?rep) @
          (case sa_result ?rep of None \<Rightarrow> [] | Some _ \<Rightarrow> [Running EndpointClosed])"
        "r = map_option (map_err MainMsg) (sa_result ?rep)"
        using assms st Inr False by (simp_all add: node_main_def Let_def)
      with start Inr show ?thesis
        by (cases "sa_result ?rep") (auto simp: map_err_Err_iff map_err_Ok_iff)
    qed
  qed
qed

lemma client_returned_no_panic: "client_returned r \<noteq> Some (Err MainPanic)"
  by (auto simp: client_returned_def map_err_def split: awaited.splits sum.splits)

lemma client_modes:
  assumes "zscheme_main h eng x cli = (effs, r)" and "\<And>b img script ms. dispatch cli \<noteq> Node b img script ms"
  shows "endpoints_opened effs = 0 \<and> r \<noteq> Some (Err MainPanic) \<and> Starting ContextBuilt \<notin> set effs"
  using assms
  by (cases "dispatch cli")
    (auto simp: zscheme_main_def client_main_def endpoints_opened_def filter_map comp_def dispatch_total client_returned_no_panic
      map_err_Err_iff split: prod.splits option.splits)

text \<open>
  C21.  Endpoints have one owner and an end: the program opens at most one endpoint, and none unless
  it was called as daemon or standalone, so the default client, \<open>stop\<close>, \<open>reset\<close> and \<open>save\<close> never touch
  the identity; once a node's context is built, every way of returning, an error included, closes
  the endpoint last; and \<open>main\<close> never reaches its panic.
\<close>

theorem main_endpoint_life:
  fixes h :: "('t, 'cfg, 'doc, 'ep, 'ext, 'sc) host" and eng :: "('e, 'sc, 'ib, 'l) engine"
  assumes "zscheme_main h eng x cli = (effs, r)"
  shows "endpoints_opened effs \<le> 1 \<and> r \<noteq> Some (Err MainPanic) \<and>
    (endpoints_opened effs = 1 \<longrightarrow> \<not> cli_gen_headless_config cli \<and>
       (\<exists>p. cli_cmd cli = Some (CmdDaemon p) \<or> cli_cmd cli = Some (CmdStandalone p))) \<and>
    (Starting ContextBuilt \<in> set effs \<and> r \<noteq> None \<longrightarrow> last effs = Running EndpointClosed) \<and>
    (r = Some (Ok ()) \<and> endpoints_opened effs = 1 \<longrightarrow> last effs = Running EndpointClosed)"
proof (cases "\<exists>b img script ms. dispatch cli = Node b img script ms")
  case True
  then obtain b img script ms where d: "dispatch cli = Node b img script ms" by blast
  then have "node_main h eng x b img script = (effs, r)" using assms by (simp add: zscheme_main_def)
  from node_main_effects [OF this] d dispatch_total [of cli] show ?thesis by blast
next
  case False
  with client_modes [OF assms] show ?thesis by simp
qed

section \<open>Taking over\<close>

text \<open>
  C26.  A daemon opens its endpoint, with the identity's key, and publishes its document before it
  claims the socket: when the running daemon answers but does not release it, the new process
  reports that and ends, but until then two endpoints of the same identity were open.
\<close>

theorem takeover_opens_second_endpoint:
  fixes h :: "('t, 'cfg, 'doc, 'ep, 'ext, 'sc) host" and eng :: "('e, 'sc, 'ib, 'l) engine"
    and n :: "('cfg, 'sc, 'ib, 'l, 'ext) node"
  assumes "\<not> cli_gen_headless_config cli" and "cli_cmd cli = Some (CmdDaemon img)"
    and start: "start_node h True (x_inbox x) = (Ok n, effs0)"
    and "x_socket_path x = Ok path" and "x_connect x 0 = Some s" and "x_connect x 1 \<noteq> None"
    and "\<forall>k \<le> 50. x_path_exists x k"
    and "frame_ok (x_into_writer x) req_dec Stop" and "room s = None"
    and "list_all (frame_ok resp_enc (x_from_reader x)) (ms @ [Stopping])" and "list_all (\<lambda>m. \<not> is_stopping m) ms"
    and "incoming s = concat (map (frame_bytes resp_enc) (ms @ [Stopping])) @ rest"
  shows "\<exists>pre pub msg. zscheme_main h eng x cli =
    (pre @ [Starting EndpointOpened, Starting (Published pub), Starting ContextBuilt,
       Starting PeriodicPublishStarted, Running EndpointClosed], Some (Err (MainDaemon (RunMsg msg))))"
proof -
  have "\<not> wait_released (x_path_exists x) 1 50" using assms(7) by (auto simp only: wait_released_50)
  then obtain msg where claim: "claim_socket (x_into_writer x) (x_from_reader x) (x_socket_path x) (x_path_exists x)
      (x_connect x) (x_remove_file x) = ClaimRefused msg"
    using claim_socket_asked [of "x_socket_path x" path "x_path_exists x" "x_connect x" s "x_into_writer x"
        req_dec resp_enc "x_from_reader x" ms rest "x_remove_file x"] assms(4-12)
    by (simp del: wait_released.simps)
  obtain pub pre where "effs0 = pre @ [EndpointOpened, Published pub, ContextBuilt, PeriodicPublishStarted]"
    using start_node_ok [OF start] by auto
  then have "zscheme_main h eng x cli = (map Starting pre @ [Starting EndpointOpened, Starting (Published pub),
      Starting ContextBuilt, Starting PeriodicPublishStarted, Running EndpointClosed],
      Some (Err (MainDaemon (RunMsg msg))))"
    using assms(1,2) start claim
    by (simp add: zscheme_main_def dispatch_def node_main_def daemon_main_def daemon_run_def)
  then show ?thesis by blast
qed

text \<open>A daemon started while another one answers but keeps its socket.\<close>

definition sample_outside :: "(rstr list, unit, unit, unit) outside" where
  "sample_outside =
     \<lparr>x_gen_config = Ok (), x_into_writer = table_enc [(Stop, [3])], x_from_reader = table_dec sample_resps,
      x_debug = (\<lambda>_. []), x_eof_text = [], x_attempt = (\<lambda>_. Err []), x_spawned = Err [], x_log_path = Err [],
      x_read_file = (\<lambda>_. Err []), x_write_file = (\<lambda>_ _. Ok ()), x_strip_comments = id,
      x_history_path = None, x_history = [], x_editor = Ok (), x_keys = [], x_show_err = (\<lambda>_. []),
      x_socket_path = Ok (lit ''s''), x_path_exists = (\<lambda>_. True), x_connect = (\<lambda>_. Some sample_stop_stream),
      x_remove_file = Ok (), x_image = (\<lambda>_. None), x_bound = Ok (), x_signals = [], x_serve = id, x_inbox = ()\<rparr>"

definition sample_cli :: cli where
  "sample_cli = \<lparr>cli_gen_headless_config = False, cli_cmd = Some (CmdDaemon None), cli_script = None,
     cli_poll_ms = 50, cli_isolated = False\<rparr>"

lemma sample_start:
  "\<exists>n effs. start_node sample_host True () = (Ok (n :: (unit, unit, unit, unit, unit) node), effs)"
proof -
  obtain n effs where "build_node sample_host True () () (sample_secrets\<lparr>created_at := lit ''5''\<rparr>) =
      (Ok (n :: (unit, unit, unit, unit, unit) node), effs)"
    using sample_build by blast
  then show ?thesis by (simp add: start_node_def sample_config sample_bundle)
qed

theorem takeover_opens_second_endpoint_witness:
  "\<exists>effs msg. zscheme_main sample_host sample_engine sample_outside sample_cli =
     (effs, Some (Err (MainDaemon (RunMsg msg)))) \<and> Starting EndpointOpened \<in> set effs"
proof -
  obtain n effs where st: "start_node sample_host True (x_inbox sample_outside) =
      (Ok (n :: (unit, unit, unit, unit, unit) node), effs)"
    using sample_start by (auto simp: sample_outside_def)
  have "incoming sample_stop_stream =
      concat (map (frame_bytes (table_enc sample_resps)) ([Pong] @ [Stopping])) @ []"
    by (simp add: sample_stop_stream_def frame_bytes_def table_enc_def sample_resps_def to_be_bytes_def)
  then show ?thesis
    using takeover_opens_second_endpoint [where h = sample_host and eng = sample_engine and x = sample_outside
        and cli = sample_cli and img = None and n = n and path = "lit ''s''" and s = sample_stop_stream
        and req_dec = "table_dec [(Stop, [3])]" and resp_enc = "table_enc sample_resps" and ms = "[Pong]" and rest = "[]",
        OF _ _ st]
    by (fastforce simp: sample_cli_def sample_outside_def frame_ok_def table_enc_def table_dec_def sample_resps_def
        is_stopping_def sample_stop_stream_def)
qed

theorem main_endpoint_life_witness:
  "endpoints_opened (fst (zscheme_main sample_host sample_engine sample_outside (sample_cli\<lparr>cli_cmd := Some CmdStop\<rparr>))) = 0"
proof -
  let ?cli = "sample_cli\<lparr>cli_cmd := Some CmdStop\<rparr>"
  obtain effs r where m: "zscheme_main sample_host sample_engine sample_outside ?cli = (effs, r)" by fastforce
  from main_endpoint_life [OF this] have "endpoints_opened effs = 0" by (auto simp: sample_cli_def)
  with m show ?thesis by simp
qed

end
