(* ===== verification/Zs_Vectors.thy ===== *)
theory Zs_Vectors
  imports Zs_Lines Zs_Repl Zs_Main
begin

text \<open>
  The test vectors of the repository's own unit tests, run on the model: the routing of
  \<open>scheme/mod.rs\<close>, the shebang of \<open>executor.rs\<close>, the notes of \<open>repl.rs\<close>, the replies of
  \<open>context.rs\<close> and the time stamps of \<open>main.rs\<close>.  Each lemma is one test function and has its name;
  its assertions are the conjuncts.
\<close>

section \<open>\<open>scheme/mod.rs\<close>\<close>

lemma detects_bare_and_hash_dot_lines:
  "is_dot_command_line (lit ''.my.aliases.sky: did:ma:bar'')"
  "is_dot_command_line (lit ''#.my.aliases.sky: bar'')"
  "is_dot_command_line (lit ''.my.aliases.sky'')"
  "is_dot_command_line (lit ''  .my.inbox!flush  '')"
  by (simp_all add: is_dot_command_line_def trim_def trim_start_def trim_end_def is_whitespace_def
      strip_prefix_def starts_with_def is_ascii_alphabetic_def newline_def)

lemma rejects_scheme_source:
  "\<not> is_dot_command_line (lit ''(#.my.aliases.sky: '' @ [34] @ lit ''bar'' @ [34] @ lit '')'')"
  "\<not> is_dot_command_line (lit ''(+ 1 2)'')"
  "\<not> is_dot_command_line (lit ''#t'')"
  "\<not> is_dot_command_line (lit ''.5'')"
  "\<not> is_dot_command_line (lit ''..broken'')"
  "\<not> is_dot_command_line (lit ''(define x 1)'' @ [newline] @ lit ''.my.x'')"
  by (simp_all add: is_dot_command_line_def trim_def trim_start_def trim_end_def is_whitespace_def
      strip_prefix_def starts_with_def is_ascii_alphabetic_def newline_def)

section \<open>\<open>executor.rs\<close>\<close>

lemma strips_shebang:
  "strip_shebang (lit ''#!/usr/local/bin/zscheme'' @ [newline] @ lit ''(+ 1 2)'') = lit ''(+ 1 2)''"
  by (simp add: strip_shebang_def starts_with_def newline_def)

lemma no_shebang_unchanged: "strip_shebang (lit ''(+ 1 2)'') = lit ''(+ 1 2)''"
  by (simp add: strip_shebang_def starts_with_def newline_def)

section \<open>\<open>repl.rs\<close>\<close>

lemma semicolon_led_lines_are_history_only_notes:
  "is_note_line (lit ''; This is a (.my.ctx.room) note'')"
  "is_note_line (lit ''  ;;also-a-note'')"
  "\<not> is_note_line (lit ''(display '' @ [34] @ lit ''; not a note'' @ [34] @ lit '')'')"
  by (simp_all add: is_note_line_def trim_start_def is_whitespace_def starts_with_def)

section \<open>\<open>context.rs\<close>\<close>

text \<open>The CBOR reader is \<open>ciborium\<close>'s: it is assumed to read what \<open>cbor_bytes\<close> of the test writes,
  that is, to return the value the test encodes.\<close>

lemma bytes_round_trip_through_cbor_value:
  "cbor_to_scheme_val debug (scheme_val_to_cbor display (SBytes [0x89, 80, 78, 71])) =
     SBytes [0x89, 80, 78, 71]"
  by simp

lemma bare_ok_ack_is_preserved_as_an_atom_not_nil:
  assumes "from_reader payload = Some (CText (lit '':ok''))"
  shows "decode_reply from_reader debug payload = Ok (SStr (lit '':ok''))"
  by (simp add: decode_reply_def assms)

lemma empty_ok_array_is_the_array_form_of_the_bare_ack:
  assumes "from_reader payload = Some (CArray [CText (lit '':ok'')])"
  shows "decode_reply from_reader debug payload = Ok (SStr (lit '':ok''))"
  by (simp add: decode_reply_def assms)

lemma ok_array_with_payload_returns_the_payload:
  assumes "from_reader payload = Some (CArray [CText (lit '':ok''), CText (lit ''prop updated'')])"
  shows "decode_reply from_reader debug payload = Ok (SStr (lit ''prop updated''))"
  by (simp add: decode_reply_def assms)

lemma error_array_returns_the_reason:
  assumes "from_reader payload =
      Some (CArray [CText (lit '':error''), CText (lit ''not authorised to edit props'')])"
  shows "decode_reply from_reader debug payload = Err (lit ''not authorised to edit props'')"
  by (simp add: decode_reply_def assms)

section \<open>\<open>main.rs\<close>\<close>

text \<open>The calls of the crate \<open>time\<close> are the host's: reading the time stamp gives a date with a
  fraction, and formatting the same date without its nanoseconds gives the canonical text.\<close>

lemma canonicalises_legacy_fractional_created_at:
  assumes "h_parse_time h (lit ''2026-07-19T19:45:24.489Z'') = Ok t"
    and "h_replace_nanosecond h (h_to_utc h t) 0 = Ok t'"
    and "h_format_time h t' = Ok (lit ''2026-07-19T19:45:24Z'')"
  shows "canonicalise_created_at h (lit ''2026-07-19T19:45:24.489Z'') = Ok (lit ''2026-07-19T19:45:24Z'')"
  by (simp add: canonicalise_created_at_def assms del: lit_simps)

end
