(* ===== verification/Spec2Isabelle.thy ===== *)
theory Spec2Isabelle
  imports Zs_Types Zs_Clients Zs_Process Zs_Session Zs_Endings Zs_Claim Zs_Entry Zs_Vectors
begin

text \<open>
  A verification development of zscheme, the command line host of a Scheme interpreter for the ma
  actor network.  The program is the crate under \<open>src/src/\<close>; its evaluator (\<open>ma-zscheme\<close>), its
  network and identity layer (\<open>ma-core\<close>), CBOR (\<open>ciborium\<close>), the line editor and the async runtime
  are other crates.

  THE PROGRAM.  A frontend (\<open>client.rs\<close>, \<open>repl.rs\<close>) reads lines or a script and sends the source to
  a per-user daemon over a socket (\<open>ipc.rs\<close>: CBOR messages in length-prefixed frames), starting the
  daemon when there is none.  The daemon (\<open>daemon.rs\<close>) owns the one network endpoint of the user's
  identity and evaluates one request at a time, streaming display output back.  Evaluations call
  the host through the context \<open>CliCtx\<close> (\<open>context.rs\<close>): dot commands on a path registry, display
  output, messages to actors and the routing of their replies, which a polling task drains.
  \<open>main.rs\<close> chooses the mode and starts a node: configuration, secret bundle, DID document.

  THE THEORIES, in import order.
  \<^item> \<open>Zs_Prelude\<close>: results and \<open>?\<close>, machine integers, and the locales for state machines
    (\<open>inductive_invariant\<close>, \<open>relative_invariant\<close>, \<open>simulation\<close>, and \<open>leads_to\<close> for progress of fair
    infinite runs by a rank).
  \<^item> \<open>Zs_Text\<close>, \<open>Zs_Utf8\<close>: Rust strings as lists of code points, \<open>str\<close> operations, integer
    formatting, UTF-8 strict and lossy.
  \<^item> \<open>Zs_Value\<close>: \<open>SchemeVal\<close> and CBOR values, the conversions between them, \<open>decode_reply\<close>, the
    rendering of results and errors (\<open>context.rs\<close>, \<open>daemon.rs\<close>); the locale \<open>ordered_map\<close>, interpreted
    on the \<open>BTreeMap\<close> insertion, carries the round trip.
  \<^item> \<open>Zs_Types\<close>: what Rust's types promise of decoded values: strings of Unicode scalar values, ordered
    maps, whatever bytes a peer sends.
  \<^item> \<open>Zs_Lines\<close>: dot-line routing (\<open>scheme/mod.rs\<close>) and script files (\<open>executor.rs\<close>).
  \<^item> \<open>Zs_Ipc\<close>: \<open>ipc.rs\<close>.  \<open>ipc_stream\<close> is one end of a connection: bytes arrived, how the stream
    ends, bytes sent, room left.  The locale \<open>framed_link\<close> is what its users rely on.
  \<^item> \<open>Zs_Context\<close>: every method of \<open>CliCtx\<close>, as functions on the record \<open>cli_ctx\<close>.
  \<^item> \<open>Zs_Replies\<close>: reply routing, one poll through the locale \<open>reply_router\<close>, then calls, polls and
    the network in any interleaving (\<open>call_step\<close>), with two invariants.
  \<^item> \<open>Zs_Daemon\<close>: \<open>daemon.rs\<close>.  The evaluator is the record \<open>engine\<close> of functions.
  \<^item> \<open>Zs_Serve\<close>: one connection: answers, isolation, and that the byte-level loop implements the
    service \<open>serve_requests\<close> on request lists.
  \<^item> \<open>Zs_Server\<close>: any number of connections interleaved at their awaits (\<open>server_step\<close>): the display
    sink follows the evaluation lock, response streams are well formed, and the whole is a
    \<open>simulation\<close> of a first-in first-out queue.
  \<^item> \<open>Zs_Progress\<close>: liveness of \<open>server_step\<close> and \<open>call_step\<close>, both interpretations of \<open>leads_to\<close>: queued
    evaluations are answered, registered calls get their replies; and what an endless evaluation does.
  \<^item> \<open>Zs_Serial\<close>: the same connections over the model's evaluator, with inputs and outputs (\<open>conc_step\<close>):
    every run is equivalent to handling its log of requests one after the other (\<open>serve_log\<close>).
  \<^item> \<open>Zs_Layers\<close>: \<open>conc_step\<close> is a \<open>simulation\<close> of \<open>server_step\<close>, and so of the queue; from the liveness of the
    one and the serialisability of the other, every evaluation is answered as the sequential daemon
    would answer it.
  \<^item> \<open>Zs_Wired\<close>: the connections over bytes, with their readers, channels and writer tasks
    (\<open>serve_step\<close>) and with peers that send in pieces, pause, close or fail (\<open>peer_step\<close>): what is
    written is always a beginning of what the sequential daemon sends.
  \<^item> \<open>Zs_Rest\<close>: when the peers pause the daemon comes to rest, by a lexicographic measure of the work
    left, and at rest everything has been answered.
  \<^item> \<open>Zs_Repl\<close>, \<open>Zs_Typing\<close>: the interactive loop (\<open>repl.rs\<close>), one step per event of the line
    editor; what is submitted and when; the locale \<open>backend_contract\<close>, under which two evaluation
    backends give the same session.
  \<^item> \<open>Zs_Client\<close>, \<open>Zs_Frontend\<close>: \<open>client.rs\<close> and what it guarantees.
  \<^item> \<open>Zs_Clients\<close>: several clients at the daemon of \<open>Zs_Wired\<close>, end to end: each prints and returns what
    the sequential daemon answers.
  \<^item> \<open>Zs_Session\<close>: a client wired to a daemon connection, byte for byte; \<open>backend_contract\<close> is
    interpreted on it and the in-process evaluator, so sessions through the daemon are local ones.
  \<^item> \<open>Zs_Endings\<close>: connections that have ended: every loop over one returns (the locale
    \<open>returning_backend\<close>, for the REPL over a client and in process), and what a client does on a
    connection that is lost or out of step.
  \<^item> \<open>Zs_Claim\<close>: several processes at one socket file (\<open>claim_step\<close>), one step per access to it: claims
    made one at a time leave one daemon, racing claims can leave two.
  \<^item> \<open>Zs_Takeover\<close>: taking over the socket, shutting down, control commands.
  \<^item> \<open>Zs_Life\<close>: a daemon process as a whole (\<open>life_step\<close>): the accept loop, its reasons to stop and the
    connections of \<open>Zs_Serial\<close> interleaved.  It implements \<open>daemon_run\<close>; the image it leaves is the
    sequential session's, a next daemon continues it, and what can be missing from it.
  \<^item> \<open>Zs_Process\<close>: \<open>Zs_Life\<close> and \<open>Zs_Wired\<close> composed (\<open>process_step\<close>): the whole daemon process over
    bytes, up to its end, is \<open>daemon_run\<close> with the sequential daemon in it; and what \<open>stop\<close>,
    \<open>reset\<close> and a takeover make of it when it hangs up.
  \<^item> \<open>Zs_Main\<close>: \<open>main.rs\<close>; the host (configuration, bundles, documents, time, IPFS) is the record
    \<open>host\<close> of functions.
  \<^item> \<open>Zs_Entry\<close>: \<open>main\<close> as a whole (\<open>zscheme_main\<close>), every mode composed of the theories above: who opens an
    endpoint, when it is closed, and that a takeover opens a second one before it has claimed.
  \<^item> \<open>Zs_Vectors\<close>: the repository's own unit tests, on the model.

  CONVENTIONS.  \<open>Result\<close> is a sum with \<open>Err\<close> on the left.  Environments and contexts, which the code
  shares and mutates, are passed and returned.  An operation that may wait for the outside returns a
  value for waiting (\<open>FramePending\<close>, \<open>Waiting\<close>, \<open>None\<close>), so a theorem that something returns says
  so.  Loops over a stream end because each frame consumes bytes; loops over events recurse on the
  events that have happened.  Request numbers wrap at 64 bits; lengths are 32-bit words; the REPL's
  depth is an integer, bounded by \<open>repl_depth_bounded\<close>.  What the code obtains from other crates is
  a parameter, and what is assumed of it is a named hypothesis: codecs decode what they encoded
  (\<open>frame_ok\<close>, message by message), the evaluator does not touch the display sink (\<open>sink_blind\<close>), a
  dump restores its environment, a time stamp survives formatting, ciborium's text is UTF-8.  The
  liveness theorems are about infinite runs and name their fairness: evaluations end, a free lock is
  handed to a waiter, polling goes on.

  NOT MODELLED.  The evaluator and the Scheme libraries, clap's parsing, tracing, timing but for
  counting waits, process creation but for the command built, and the re-export modules.
  \<open>life_step\<close> leaves open what the session image holds when the loop ends during an evaluation.
  \<open>conc_step\<close>, and \<open>serve_step\<close> and \<open>process_step\<close> over it, leave out a \<open>Reset\<close> or \<open>DumpEnv\<close> that
  arrives during an evaluation (neither takes the lock, and what it does to a running evaluator is the
  evaluator's affair) and the polling task, which \<open>server_step\<close> covers.  \<open>claim_step\<close> is the Unix side and
  counts no checks.  Log output is left out.
\<close>

end
